theory Spec2Isabelle
  imports Complex_Main "HOL-Library.Sublist" "HOL-Library.Word"
begin

unbundle bit_operations_syntax

section \<open>Python strings and lists\<close>

text \<open>
  A Python \<open>str\<close> is modelled as a \<open>string\<close> whose characters are the code points
  below 256 (URLs are ASCII). \<open>isspace\<close> and \<open>lower_char\<close> follow \<open>str.isspace\<close> and
  \<open>str.lower\<close> on that range.
\<close>

definition isspace :: "char \<Rightarrow> bool" where
  "isspace c =
     (let n = (of_char c :: nat)
      in (9 \<le> n \<and> n \<le> 13) \<or> (28 \<le> n \<and> n \<le> 32) \<or> n = 133 \<or> n = 160)"

definition strip :: "string \<Rightarrow> string" where
  "strip s = rev (dropWhile isspace (rev (dropWhile isspace s)))"

definition lower_char :: "char \<Rightarrow> char" where
  "lower_char c =
     (let n = (of_char c :: nat)
      in if (65 \<le> n \<and> n \<le> 90) \<or> (192 \<le> n \<and> n \<le> 222 \<and> n \<noteq> 215)
         then char_of (n + 32) else c)"

definition lower :: "string \<Rightarrow> string" where
  "lower s = map lower_char s"

definition startswith :: "string \<Rightarrow> string \<Rightarrow> bool" where
  "startswith s p = prefix p s"

definition endswith :: "string \<Rightarrow> string \<Rightarrow> bool" where
  "endswith s p = suffix p s"

text \<open>\<open>contains sub s\<close> is Python's \<open>sub in s\<close>.\<close>

fun contains :: "string \<Rightarrow> string \<Rightarrow> bool" where
  "contains sub [] = (sub = [])"
| "contains sub (c # cs) = (prefix sub (c # cs) \<or> contains sub cs)"

text \<open>
  \<open>replace s old new\<close> is \<open>s.replace(old, new)\<close>: every occurrence of \<open>old\<close>, found
  left to right without overlap, becomes \<open>new\<close>. With an empty \<open>old\<close> Python puts
  \<open>new\<close> before every character and at the end.
\<close>

function replace_from :: "string \<Rightarrow> string \<Rightarrow> string \<Rightarrow> string" where
  "replace_from old new [] = []"
| "replace_from old new (c # cs) =
     (if old \<noteq> [] \<and> prefix old (c # cs)
      then new @ replace_from old new (drop (length old) (c # cs))
      else c # replace_from old new cs)"
  by pat_completeness auto
termination
  by (relation "measure (\<lambda>(old, new, s). length s)") auto

definition replace :: "string \<Rightarrow> string \<Rightarrow> string \<Rightarrow> string" where
  "replace s old new =
     (if old = [] then new @ concat (map (\<lambda>c. c # new) s) else replace_from old new s)"

text \<open>
  \<open>split s sep\<close> is \<open>s.split(sep)\<close> for a non-empty separator (every call of the
  source passes a non-empty literal; Python raises ValueError on an empty one). The
  accumulator holds the current piece, reversed.
\<close>

function split_from :: "string \<Rightarrow> string \<Rightarrow> string \<Rightarrow> string list" where
  "split_from sep acc [] = [rev acc]"
| "split_from sep acc (c # cs) =
     (if sep \<noteq> [] \<and> prefix sep (c # cs)
      then rev acc # split_from sep [] (drop (length sep) (c # cs))
      else split_from sep (c # acc) cs)"
  by pat_completeness auto
termination
  by (relation "measure (\<lambda>(sep, acc, s). length s)") auto

definition split :: "string \<Rightarrow> string \<Rightarrow> string list" where
  "split s sep = split_from sep [] s"

text \<open>\<open>join sep xs\<close> is \<open>sep.join(xs)\<close>.\<close>

fun join :: "string \<Rightarrow> string list \<Rightarrow> string" where
  "join sep [] = []"
| "join sep [x] = x"
| "join sep (x # y # ys) = x @ sep @ join sep (y # ys)"

datatype error =
    ValueError string
  | IndexError
  | DownloadError nat
  | ConnectionError
  | ZeroDivisionError
  | ExternalError string
  | OverflowError
  | RuntimeError string

text \<open>\<open>index xs i\<close> is \<open>xs[i]\<close>: a negative index counts from the end, and an index
  out of range raises IndexError.\<close>

definition index :: "'a list \<Rightarrow> int \<Rightarrow> error + 'a" where
  "index xs i =
     (if 0 \<le> i \<and> i < int (length xs) then Inr (xs ! nat i)
      else if i < 0 \<and> - int (length xs) \<le> i then Inr (xs ! nat (int (length xs) + i))
      else Inl IndexError)"

text \<open>\<open>slice xs i j\<close> is \<open>xs[i:j]\<close>: bounds are clamped, never an error.\<close>

definition slice_bound :: "int \<Rightarrow> int \<Rightarrow> nat" where
  "slice_bound n i = nat (if i < 0 then max (n + i) 0 else min i n)"

definition slice :: "'a list \<Rightarrow> int \<Rightarrow> int \<Rightarrow> 'a list" where
  "slice xs i j =
     (let n = int (length xs); lo = slice_bound n i; hi = slice_bound n j
      in take (hi - lo) (drop lo xs))"


section \<open>The world outside the process\<close>

text \<open>
  The resolver reads and changes the working directory's file tree, reads the process
  environment and talks to remote servers. All of it is one explicit state:
  \<^item> \<open>files\<close>: the paths for which \<open>os.path.exists\<close> holds, compared as strings;
  \<^item> \<open>environ\<close>: \<open>os.environ\<close>;
  \<^item> \<open>remote\<close>: what a plain HTTP GET of a URL answers (status code and body),
    \<open>None\<close> when the connection fails;
  \<^item> \<open>hub_reply\<close>: what the hub client \<open>hf_hub_download\<close> answers to a request;
  \<^item> \<open>requests\<close>, \<open>hub_calls\<close>, \<open>torch_loads\<close>: logs of the HTTP GETs, hub
    downloads and tensor-file reads performed so far;
  \<^item> \<open>stdout\<close>: the lines printed.
  Failures of the operating system itself (permissions, a regular file where a
  directory is expected, a full disk) are outside the model.
\<close>

datatype entry = Dir | File string

record hub_request =
  repo_id :: string
  filename :: string
  subfolder :: "string option"
  cache_dir :: string

record world =
  cwd :: string
  files :: "string \<rightharpoonup> entry"
  environ :: "string \<rightharpoonup> string"
  remote :: "string \<Rightarrow> (nat \<times> string) option"
  hub_reply :: "hub_request \<Rightarrow> error + string"
  requests :: "string list"
  hub_calls :: "hub_request list"
  torch_loads :: "string list"
  stdout :: "string list"

definition path_exists :: "world \<Rightarrow> string \<Rightarrow> bool" where
  "path_exists w p = (files w p \<noteq> None)"

text \<open>\<open>os.path.join\<close> of two components (POSIX): an absolute second component
  replaces the first.\<close>

definition path_join :: "string \<Rightarrow> string \<Rightarrow> string" where
  "path_join a b =
     (if startswith b ''/'' then b
      else if a = [] \<or> endswith a ''/'' then a @ b
      else a @ ''/'' @ b)"

text \<open>\<open>os.path.dirname\<close> (POSIX): everything up to the last slash, without trailing
  slashes unless it consists of slashes only.\<close>

definition dirname :: "string \<Rightarrow> string" where
  "dirname p =
     (let head = rev (dropWhile (\<lambda>c. c \<noteq> CHR ''/'') (rev p))
      in if head \<noteq> [] \<and> \<not> list_all (\<lambda>c. c = CHR ''/'') head
         then rev (dropWhile (\<lambda>c. c = CHR ''/'') (rev head)) else head)"

definition mkdir :: "string \<Rightarrow> world \<Rightarrow> world" where
  "mkdir p w = w\<lparr>files := (files w)(p \<mapsto> Dir)\<rparr>"

text \<open>\<open>os.makedirs(d, exist_ok=True)\<close> creates \<open>d\<close> and every missing directory above
  it: the prefixes of \<open>d\<close> that end before a slash.\<close>

definition ancestors :: "string \<Rightarrow> string list" where
  "ancestors d = [take i d. i \<leftarrow> [1..<length d], d ! i = CHR ''/''] @ [d]"

definition makedirs :: "string \<Rightarrow> world \<Rightarrow> world" where
  "makedirs d w =
     w\<lparr>files := (\<lambda>p. if p \<in> set (ancestors d) \<and> files w p = None then Some Dir
                       else files w p)\<rparr>"

definition write_file :: "string \<Rightarrow> string \<Rightarrow> world \<Rightarrow> world" where
  "write_file f content w = w\<lparr>files := (files w)(f \<mapsto> File content)\<rparr>"

definition print_line :: "string \<Rightarrow> world \<Rightarrow> world" where
  "print_line s w = w\<lparr>stdout := stdout w @ [s]\<rparr>"

text \<open>The hub client is an external collaborator: a call is logged and answered by
  the world. What it writes below \<open>cache_dir\<close> is not tracked.\<close>

definition hf_hub_download :: "hub_request \<Rightarrow> world \<Rightarrow> (error + string) \<times> world" where
  "hf_hub_download req w = (hub_reply w req, w\<lparr>hub_calls := hub_calls w @ [req]\<rparr>)"

section \<open>The source resolver\<close>

text \<open>\<open>find_or_create_cache\<close> (lines 18-28).\<close>

definition find_or_create_cache :: "world \<Rightarrow> string \<times> world" where
  "find_or_create_cache w =
     (let cwd0 = cwd w;
          cwd1 = (if path_exists w (path_join cwd0 ''ComfyUI'')
                  then path_join cwd0 ''ComfyUI'' else cwd0);
          cwd2 = (if path_exists w (path_join cwd1 ''models'')
                  then path_join cwd1 ''models'' else cwd1);
          cache = path_join cwd2 ''huggingface_cache''
      in if \<not> path_exists w cache
         then (cache,
               mkdir cache (print_line ''Creating huggingface_cache directory within comfy'' w))
         else (cache, w))"

text \<open>\<open>download_file\<close> (lines 31-39): the directories are made before the request,
  and the file is written only on status 200.\<close>

definition download_file :: "string \<Rightarrow> string \<Rightarrow> world \<Rightarrow> (error + unit) \<times> world" where
  "download_file url fname w =
     (let w1 = makedirs (dirname fname) w;
          w2 = w1\<lparr>requests := requests w1 @ [url]\<rparr>
      in case remote w2 url of
           None \<Rightarrow> (Inl ConnectionError, w2)
         | Some (status_code, content) \<Rightarrow>
             if status_code = 200 then (Inr (), write_file fname content w2)
             else (Inl (DownloadError status_code), w2))"

text \<open>\<open>hashlib.md5(url.encode())\<close> is a parameter \<open>md5\<close>, any function from strings to
  128-bit digests; \<open>hexdigest\<close> prints a digest as 32 lower-case hexadecimal digits.\<close>

definition hexdigit :: "nat \<Rightarrow> char" where
  "hexdigit n = ''0123456789abcdef'' ! n"

definition hexdigest :: "128 word \<Rightarrow> string" where
  "hexdigest d = map (\<lambda>i. hexdigit (unat (drop_bit (4 * (31 - i)) d AND 15))) [0..<32]"

definition get_filename_from_url :: "(string \<Rightarrow> 128 word) \<Rightarrow> string \<Rightarrow> string \<Rightarrow> string" where
  "get_filename_from_url md5 url extension = hexdigest (md5 url) @ ''.'' @ extension"

text \<open>The hub branch, lines 61-66: the trailing download marker is cut off and
  \<open>/blob/\<close> becomes \<open>/resolve/\<close>.\<close>

definition hf_fix_url :: "string \<Rightarrow> string" where
  "hf_fix_url url =
     (let url1 = (if endswith url ''?download=true''
                  then slice url 0 (- int (length ''?download=true'')) else url)
      in if contains ''/blob/'' url1 then replace url1 ''/blob/'' ''/resolve/'' else url1)"

text \<open>The hub branch, lines 74-88: repo id, filename and subfolder from the path
  segments.\<close>

definition hf_parse :: "string \<Rightarrow> error + (string \<times> string \<times> string option)" where
  "hf_parse url =
     (let parser_string = replace (replace url ''http://'' []) ''https://'' [];
          parts = split parser_string ''/''
      in case index parts 1 of Inl e \<Rightarrow> Inl e | Inr p1 \<Rightarrow>
         (case index parts 2 of Inl e \<Rightarrow> Inl e | Inr p2 \<Rightarrow>
         (case index parts (- 1) of Inl e \<Rightarrow> Inl e | Inr plast \<Rightarrow>
            (let repo = p1 @ ''/'' @ p2;
                 subfolder_length = int (length parts) - 6;
                 sub = (if subfolder_length > 0
                        then Some (join ''/'' (slice parts 5 (- 1))) else None)
             in Inr (repo, plast, sub)))))"

definition hub_branch :: "string \<Rightarrow> world \<Rightarrow> (error + string) \<times> world" where
  "hub_branch url0 w =
     (let url = hf_fix_url url0
      in if \<not> endswith (lower url) ''safetensors''
         then (Inl (ValueError ''Only safetensors files are supported.''), w)
         else (case hf_parse url of
                 Inl e \<Rightarrow> (Inl e, w)
               | Inr (repo, fname, sub) \<Rightarrow>
                   (case find_or_create_cache w of (cache, w1) \<Rightarrow>
                      hf_hub_download
                        \<lparr>repo_id = strip repo, filename = strip fname,
                         subfolder = sub, cache_dir = cache\<rparr> w1)))"

text \<open>The marketplace branch, lines 101-104: a URL with a \<open>modelVersionId\<close> is
  replaced by the download URL of that version.\<close>

definition civitai_fix_url :: "string \<Rightarrow> error + string" where
  "civitai_fix_url url =
     (if contains ''modelVersionId'' url
      then (case index (split url ''modelVersionId='') 1 of Inl e \<Rightarrow> Inl e | Inr v1 \<Rightarrow>
           (case index (split v1 ''&'') 0 of Inl e \<Rightarrow> Inl e | Inr model_version_id \<Rightarrow>
              Inr (''https://civitai.com/api/download/models/'' @ model_version_id
                   @ ''?type=Model&format=SafeTensor'')))
      else Inr url)"

text \<open>Lines 112-116: the API key, when set and not blank, is appended as a token.\<close>

definition add_api_key :: "world \<Rightarrow> string \<Rightarrow> string" where
  "add_api_key w url =
     (case environ w ''CIVITAI_API_KEY'' of
        None \<Rightarrow> url
      | Some api_key \<Rightarrow> if strip api_key \<noteq> [] then url @ ''&token='' @ api_key else url)"

text \<open>Lines 119-123 and 131-134: the cache path below the provider's directory, and
  the download when no file is there.\<close>

definition fetch_cached ::
  "string \<Rightarrow> string \<Rightarrow> string \<Rightarrow> world \<Rightarrow> (error + string) \<times> world" where
  "fetch_cached provider save_filename url w =
     (case find_or_create_cache w of (cache, w1) \<Rightarrow>
        (let lora_path = path_join (path_join cache provider) save_filename
         in if \<not> path_exists w1 lora_path
            then (case download_file url lora_path w1 of
                    (Inl e, w2) \<Rightarrow> (Inl e, w2)
                  | (Inr u, w2) \<Rightarrow> (Inr lora_path, w2))
            else (Inr lora_path, w1)))"

definition civitai_branch ::
  "(string \<Rightarrow> 128 word) \<Rightarrow> string \<Rightarrow> world \<Rightarrow> (error + string) \<times> world" where
  "civitai_branch md5 url0 w =
     (case civitai_fix_url url0 of
        Inl e \<Rightarrow> (Inl e, w)
      | Inr url \<Rightarrow>
          if \<not> contains ''SafeTensor'' url
          then (Inl (ValueError ''Only safetensors files are supported for security reasons.''), w)
          else (let save_filename = get_filename_from_url md5 url ''safetensors''
                in fetch_cached ''civitai'' save_filename (add_api_key w url) w))"

definition general_branch ::
  "(string \<Rightarrow> 128 word) \<Rightarrow> string \<Rightarrow> world \<Rightarrow> (error + string) \<times> world" where
  "general_branch md5 url w =
     (case index (split (lower url) ''?'') 0 of
        Inl e \<Rightarrow> (Inl e, w)
      | Inr path \<Rightarrow>
          if \<not> endswith path ''safetensors''
          then (Inl (ValueError ''Only safetensors files are supported for security reasons.''), w)
          else (let save_filename = get_filename_from_url md5 url ''safetensors''
                in fetch_cached ''general'' save_filename url w))"

text \<open>\<open>get_lora_from_url\<close> (lines 48-136). The result is the local path or the
  exception raised, together with the world the call leaves behind.\<close>

definition get_lora_from_url ::
  "(string \<Rightarrow> 128 word) \<Rightarrow> string \<Rightarrow> world \<Rightarrow> (error + string) \<times> world" where
  "get_lora_from_url md5 url0 w =
     (let url = strip url0
      in if url = [] then (Inl (ValueError ''URL is empty''), w)
         else if \<not> startswith url ''http'' then (Inl (ValueError ''Invalid URL''), w)
         else if contains ''huggingface.co'' url then hub_branch url w
         else if contains ''civitai.com'' url then civitai_branch md5 url w
         else general_branch md5 url w)"

section \<open>The LoRA loader nodes\<close>

text \<open>
  \<open>comfy.utils.load_torch_file\<close> and \<open>comfy.sd.load_lora_for_models\<close> belong to the
  host. They are parameters: what a read of a path yields in a world, and the pure
  merge of a payload into a model and a text encoder. A read is logged in
  \<open>torch_loads\<close>.
\<close>

record ('m, 'c, 'p) comfy =
  read_tensors :: "world \<Rightarrow> string \<Rightarrow> error + 'p"
  load_lora_for_models :: "'m \<Rightarrow> 'c \<Rightarrow> 'p \<Rightarrow> real \<Rightarrow> real \<Rightarrow> error + ('m \<times> 'c)"

definition load_torch_file ::
  "('m, 'c, 'p) comfy \<Rightarrow> string \<Rightarrow> world \<Rightarrow> (error + 'p) \<times> world" where
  "load_torch_file comfy path w =
     (read_tensors comfy w path, w\<lparr>torch_loads := torch_loads w @ [path]\<rparr>)"

text \<open>The attributes of a loader instance, and \<open>__init__\<close> (lines 318-320, 608-610).\<close>

record 'p lora_node =
  loaded_lora :: "'p option"
  loaded_lora_path :: "string option"

definition new_node :: "'p lora_node" where
  "new_node = \<lparr>loaded_lora = None, loaded_lora_path = None\<rparr>"

text \<open>Lines 344-362 and 625-643, the same in both classes: the one-entry cache, the
  read on a miss, and the merge.\<close>

definition cached_or_load ::
  "('m, 'c, 'p) comfy \<Rightarrow> 'p lora_node \<Rightarrow> 'm \<Rightarrow> 'c \<Rightarrow> string \<Rightarrow> real \<Rightarrow> real \<Rightarrow> world
     \<Rightarrow> (error + 'm \<times> 'c) \<times> 'p lora_node \<times> world" where
  "cached_or_load comfy self model clip lora_path strength_model strength_clip w =
     (case (case loaded_lora self of
              None \<Rightarrow> (None, self)
            | Some l \<Rightarrow>
                if loaded_lora_path self = Some lora_path then (Some l, self)
                else (None, self\<lparr>loaded_lora := None, loaded_lora_path := None\<rparr>)) of
        (None, self1) \<Rightarrow>
          (case load_torch_file comfy lora_path w of
             (Inl e, w1) \<Rightarrow> (Inl e, self1, w1)
           | (Inr l, w1) \<Rightarrow>
               (load_lora_for_models comfy model clip l strength_model strength_clip,
                self1\<lparr>loaded_lora := Some l, loaded_lora_path := Some lora_path\<rparr>, w1))
      | (Some l, self1) \<Rightarrow>
          (load_lora_for_models comfy model clip l strength_model strength_clip, self1, w))"

text \<open>\<open>LoraLoaderFromURL.load_lora\<close> (lines 612-643).\<close>

definition LoraLoaderFromURL_load_lora ::
  "('m, 'c, 'p) comfy \<Rightarrow> (string \<Rightarrow> 128 word) \<Rightarrow> 'p lora_node \<Rightarrow> 'm \<Rightarrow> 'c \<Rightarrow> string
     \<Rightarrow> real \<Rightarrow> real \<Rightarrow> world \<Rightarrow> (error + 'm \<times> 'c) \<times> 'p lora_node \<times> world" where
  "LoraLoaderFromURL_load_lora comfy md5 self model clip url strength_model strength_clip w =
     (if strength_model = 0 \<and> strength_clip = 0 then (Inr (model, clip), self, w)
      else (case get_lora_from_url md5 url w of
              (Inl e, w1) \<Rightarrow> (Inl e, self, w1)
            | (Inr lora_path, w1) \<Rightarrow>
                cached_or_load comfy self model clip lora_path strength_model strength_clip w1))"

text \<open>The path resolution of \<open>HFHubLoraLoader.load_lora\<close> (lines 335-342).\<close>

definition hub_resolve ::
  "string \<Rightarrow> string option \<Rightarrow> string \<Rightarrow> world \<Rightarrow> (error + string) \<times> world" where
  "hub_resolve repo sub fname w =
     (case find_or_create_cache w of (cache, w1) \<Rightarrow>
        hf_hub_download
          \<lparr>repo_id = strip repo, filename = strip fname,
           subfolder = (case sub of None \<Rightarrow> None
                        | Some s \<Rightarrow> if strip s = [] then None else Some (strip s)),
           cache_dir = cache\<rparr> w1)"

text \<open>\<open>HFHubLoraLoader.load_lora\<close> (lines 322-362).\<close>

definition HFHubLoraLoader_load_lora ::
  "('m, 'c, 'p) comfy \<Rightarrow> 'p lora_node \<Rightarrow> 'm \<Rightarrow> 'c \<Rightarrow> string \<Rightarrow> string option \<Rightarrow> string
     \<Rightarrow> real \<Rightarrow> real \<Rightarrow> world \<Rightarrow> (error + 'm \<times> 'c) \<times> 'p lora_node \<times> world" where
  "HFHubLoraLoader_load_lora comfy self model clip repo sub fname strength_model strength_clip w =
     (if strength_model = 0 \<and> strength_clip = 0 then (Inr (model, clip), self, w)
      else (case hub_resolve repo sub fname w of
              (Inl e, w1) \<Rightarrow> (Inl e, self, w1)
            | (Inr lora_path, w1) \<Rightarrow>
                cached_or_load comfy self model clip lora_path strength_model strength_clip w1))"

text \<open>
  The one-entry cache as the specification words it, for an invocation that resolved
  the path \<open>p\<close> in the world \<open>w1\<close> and ended with the result \<open>r\<close>, the instance
  \<open>self'\<close> and the world \<open>w'\<close>:
  \<^item> when \<open>p\<close> is the stored path, the instance and the world stay as they are (no
    read is logged) and the held payload is the one merged;
  \<^item> when \<open>p\<close> is not the stored path, \<open>p\<close> is read once, and the instance holds
    the payload read and \<open>p\<close>, or nothing when the read fails;
  \<^item> afterwards the instance holds a payload only for \<open>p\<close>.
\<close>

definition one_entry_cache_step ::
  "('m, 'c, 'p) comfy \<Rightarrow> 'm \<Rightarrow> 'c \<Rightarrow> real \<Rightarrow> real \<Rightarrow> 'p lora_node \<Rightarrow> string \<Rightarrow> world
     \<Rightarrow> (error + 'm \<times> 'c) \<times> 'p lora_node \<times> world \<Rightarrow> bool" where
  "one_entry_cache_step comfy model clip sm sc self p w1 out =
     (case out of (r, self', w') \<Rightarrow>
        (loaded_lora_path self = Some p \<longrightarrow>
           self' = self \<and> w' = w1 \<and>
           (\<exists>held. loaded_lora self = Some held \<and>
                   r = load_lora_for_models comfy model clip held sm sc)) \<and>
        (loaded_lora_path self \<noteq> Some p \<longrightarrow>
           w' = w1\<lparr>torch_loads := torch_loads w1 @ [p]\<rparr> \<and>
           (case read_tensors comfy w1 p of
              Inl e \<Rightarrow> r = Inl e \<and> self' = \<lparr>loaded_lora = None, loaded_lora_path = None\<rparr>
            | Inr l \<Rightarrow> r = load_lora_for_models comfy model clip l sm sc \<and>
                self' = \<lparr>loaded_lora = Some l, loaded_lora_path = Some p\<rparr>)) \<and>
        (loaded_lora self' \<noteq> None \<longrightarrow> loaded_lora_path self' = Some p))"

text \<open>An instance is consistent when it holds a payload exactly when it holds a path;
  \<open>__init__\<close> makes it so and every invocation keeps it so.\<close>

definition consistent :: "'p lora_node \<Rightarrow> bool" where
  "consistent self = ((loaded_lora self = None) = (loaded_lora_path self = None))"

section \<open>Image padding\<close>

text \<open>
  An image batch is a tensor of shape \<open>[batch, height, width, channels]\<close>: its four
  sizes and the element at each index (read only inside the shape). Elements are
  copied, never computed with, so their type is left open.
\<close>

record 'a image =
  batch :: nat
  height :: nat
  width :: nat
  channels :: nat
  px :: "nat \<Rightarrow> nat \<Rightarrow> nat \<Rightarrow> nat \<Rightarrow> 'a"

datatype pad_error = PadTooLarge | EmptyDimension

text \<open>
  \<open>torch.nn.functional.pad\<close> belongs to the tensor runtime; it is modelled after its
  documentation for the one call shape the node uses: a four-dimensional input and the
  pad tuple \<open>(0, 0, left, right, top, bottom)\<close>, which pads the width by
  \<open>left\<close>/\<open>right\<close> and the height by \<open>top\<close>/\<open>bottom\<close> and leaves batch and
  channels alone. \<open>source_index\<close> is the input coordinate an output coordinate is
  copied from along one axis of input size \<open>n\<close> padded by \<open>before\<close> at the front:
  \<^item> replicate: the nearest coordinate inside the input;
  \<^item> reflect: the coordinate mirrored at the border, the border itself not repeated.
  The constant mode accepts every input. The replicate and reflect modes read a
  four-dimensional input with a six-element pad as one unbatched volume and refuse it
  when any of its four sizes, the batch size included, is zero; the reflect mode then
  refuses a pad that is not smaller than the input size it extends.
\<close>

definition replicate_index :: "nat \<Rightarrow> nat \<Rightarrow> nat \<Rightarrow> nat" where
  "replicate_index n before j = (if j < before then 0 else min (j - before) (n - 1))"

definition reflect_index :: "nat \<Rightarrow> nat \<Rightarrow> nat \<Rightarrow> nat" where
  "reflect_index n before j =
     (if j < before then before - j
      else if j - before < n then j - before
      else 2 * (n - 1) - (j - before))"

definition inside :: "nat \<Rightarrow> nat \<Rightarrow> nat \<Rightarrow> bool" where
  "inside n before j = (before \<le> j \<and> j < before + n)"

definition pad_shape :: "'a image \<Rightarrow> nat \<Rightarrow> nat \<Rightarrow> nat \<Rightarrow> nat \<Rightarrow> 'a image" where
  "pad_shape img pad_left pad_right pad_top pad_bottom =
     img\<lparr>height := height img + pad_top + pad_bottom, width := width img + pad_left + pad_right\<rparr>"

definition pad_constant ::
  "'a::zero image \<Rightarrow> nat \<Rightarrow> nat \<Rightarrow> nat \<Rightarrow> nat \<Rightarrow> pad_error + 'a image" where
  "pad_constant img pad_left pad_right pad_top pad_bottom =
     Inr ((pad_shape img pad_left pad_right pad_top pad_bottom)
            \<lparr>px := (\<lambda>b y x c.
                if inside (height img) pad_top y \<and> inside (width img) pad_left x
                then px img b (y - pad_top) (x - pad_left) c else 0)\<rparr>)"

definition pad_replicate ::
  "'a image \<Rightarrow> nat \<Rightarrow> nat \<Rightarrow> nat \<Rightarrow> nat \<Rightarrow> pad_error + 'a image" where
  "pad_replicate img pad_left pad_right pad_top pad_bottom =
     (if batch img = 0 \<or> height img = 0 \<or> width img = 0 \<or> channels img = 0
      then Inl EmptyDimension
      else Inr ((pad_shape img pad_left pad_right pad_top pad_bottom)
            \<lparr>px := (\<lambda>b y x c.
                px img b (replicate_index (height img) pad_top y)
                         (replicate_index (width img) pad_left x) c)\<rparr>))"

definition pad_reflect ::
  "'a image \<Rightarrow> nat \<Rightarrow> nat \<Rightarrow> nat \<Rightarrow> nat \<Rightarrow> pad_error + 'a image" where
  "pad_reflect img pad_left pad_right pad_top pad_bottom =
     (if batch img = 0 \<or> height img = 0 \<or> width img = 0 \<or> channels img = 0
      then Inl EmptyDimension
      else if pad_left < width img \<and> pad_right < width img \<and> pad_top < height img \<and> pad_bottom < height img
      then Inr ((pad_shape img pad_left pad_right pad_top pad_bottom)
            \<lparr>px := (\<lambda>b y x c.
                px img b (reflect_index (height img) pad_top y)
                         (reflect_index (width img) pad_left x) c)\<rparr>)
      else Inl PadTooLarge)"

text \<open>\<open>ImagePaddingAdvanced.run\<close> (lines 680-721). The requested sizes are integers;
  every method name other than \<open>constant\<close> and \<open>replicate\<close> takes the reflect branch.\<close>

definition run ::
  "'a::zero image \<Rightarrow> int \<Rightarrow> int \<Rightarrow> string \<Rightarrow> pad_error + 'a image" where
  "run img target_width target_height method =
     (let orig_height = int (height img); orig_width = int (width img);
          pad_width = (if target_width > orig_width then target_width - orig_width else 0);
          pad_height = (if target_height > orig_height then target_height - orig_height else 0)
      in if pad_height = 0 \<and> pad_width = 0 then Inr img
         else (let pad_top = pad_height div 2;
                   pad_bottom = pad_height - pad_top;
                   pad_left = pad_width div 2;
                   pad_right = pad_width - pad_left
               in if method = ''constant''
                  then pad_constant img (nat pad_left) (nat pad_right) (nat pad_top) (nat pad_bottom)
                  else if method = ''replicate''
                  then pad_replicate img (nat pad_left) (nat pad_right) (nat pad_top) (nat pad_bottom)
                  else pad_reflect img (nat pad_left) (nat pad_right) (nat pad_top) (nat pad_bottom)))"

text \<open>What the padded image must look like, in the three fill policies: the source
  coordinate of an output coordinate outside the copied block.\<close>

definition fill_ok ::
  "string \<Rightarrow> 'a::zero image \<Rightarrow> 'a image \<Rightarrow> nat \<Rightarrow> nat \<Rightarrow> bool" where
  "fill_ok method img out pad_top pad_left =
     (\<forall>b y x c. y < height out \<longrightarrow> x < width out \<longrightarrow>
        px out b y x c =
          (if method = ''constant''
           then (if inside (height img) pad_top y \<and> inside (width img) pad_left x
                 then px img b (y - pad_top) (x - pad_left) c else 0)
           else if method = ''replicate''
           then px img b (replicate_index (height img) pad_top y) (replicate_index (width img) pad_left x) c
           else px img b (reflect_index (height img) pad_top y) (reflect_index (width img) pad_left x) c))"



section \<open>The easing-curve node\<close>

subsection \<open>Floating-point arithmetic\<close>

text \<open>
  Python floats are IEEE binary64 numbers. A finite double is modelled by the real
  number it denotes, and an arithmetic operation by the exact real result rounded to
  the nearest double, ties to the even significand: \<open>to_double\<close>. A real \<open>x\<close> other
  than 0 lies in the binade \<open>2 ^ k \<le> \<bar>x\<bar> < 2 ^ (k + 1)\<close>, where the doubles are the
  multiples of \<open>2 ^ (k - 52)\<close>; below \<open>2 ^ - 1022\<close> (the subnormal numbers) they are
  the multiples of \<open>2 ^ - 1074\<close>. The largest double is \<open>2 ^ 1024 - 2 ^ 971\<close>, about
  \<open>1.8e308\<close>; an exact result of magnitude \<open>overflow_bound\<close> or more, half a unit in
  the last place beyond it, is rounded by the machine to an infinity. Infinities and
  not-a-number are not modelled: \<open>to_double\<close> is the machine's rounding below
  \<open>overflow_bound\<close> only, and a statement about the machine is made where the
  results stay below it.
\<close>

definition round_even :: "real \<Rightarrow> int" where
  "round_even y =
     (let f = \<lfloor>y\<rfloor>; r = y - of_int f
      in if r < 1 / 2 then f else if 1 / 2 < r then f + 1 else if even f then f else f + 1)"

definition binade :: "real \<Rightarrow> int" where
  "binade x = max \<lfloor>log 2 \<bar>x\<bar>\<rfloor> (- 1022)"

definition overflow_bound :: real where
  "overflow_bound = 2 ^ 1024 - 2 ^ 970"

definition to_double :: "real \<Rightarrow> real" where
  "to_double x =
     (if x = 0 then 0
      else of_int (round_even (x / 2 powi (binade x - 52))) * 2 powi (binade x - 52))"

text \<open>
  The arithmetic the node computes in is a parameter of its model: the rounding applied
  to the exact result of every operation, and the exponential function of the C
  library behind \<open>math.exp\<close>, which returns a double near \<open>exp x\<close>. \<open>double_arith\<close>
  is the arithmetic of the machine; \<open>exact_arith\<close> rounds nothing, and is what a
  statement "in exact arithmetic" is about.
\<close>

record arith =
  rnd :: "real \<Rightarrow> real"
  fexp :: "real \<Rightarrow> real"

definition double_arith :: "(real \<Rightarrow> real) \<Rightarrow> arith" where
  "double_arith libm_exp = \<lparr>rnd = to_double, fexp = libm_exp\<rparr>"

definition exact_arith :: arith where
  "exact_arith = \<lparr>rnd = (\<lambda>x. x), fexp = exp\<rparr>"

subsection \<open>The node\<close>

text \<open>
  \<open>FluxReduxFloatRamp\<close> (lines 723-809). The class has no \<open>__init__\<close>: an instance may
  or may not carry the attributes \<open>i\<close> and \<open>total_steps\<close> that \<open>get_value\<close> reads with
  \<open>getattr\<close>. Every operation of a method rounds its result; the literals of the
  source (\<open>7.5625\<close>, \<open>2.75\<close>, \<open>0.75\<close>, ...) are doubles as written.
\<close>

record ramp_node =
  attr_i :: "int option"
  attr_total_steps :: "int option"

definition fresh_ramp_node :: ramp_node where
  "fresh_ramp_node = \<lparr>attr_i = None, attr_total_steps = None\<rparr>"

definition ease_in :: "arith \<Rightarrow> real \<Rightarrow> real" where
  "ease_in ar x = rnd ar (x * x)"

definition ease_out :: "arith \<Rightarrow> real \<Rightarrow> real" where
  "ease_out ar x = rnd ar (1 - rnd ar (rnd ar (1 - x) * rnd ar (1 - x)))"

definition ease_in_out :: "arith \<Rightarrow> real \<Rightarrow> real" where
  "ease_in_out ar x = rnd ar (rnd ar (x * x) * rnd ar (3 - rnd ar (2 * x)))"

text \<open>Line 757: a float division raises ZeroDivisionError on a zero divisor.\<close>

definition exponential :: "arith \<Rightarrow> real \<Rightarrow> error + real" where
  "exponential ar x =
     (let num = rnd ar (fexp ar x - 1); den = rnd ar (fexp ar 1 - 1)
      in if den = 0 then Inl ZeroDivisionError else Inr (rnd ar (num / den)))"

definition smoothstep :: "arith \<Rightarrow> real \<Rightarrow> real" where
  "smoothstep ar x = rnd ar (rnd ar (x * x) * rnd ar (3 - rnd ar (2 * x)))"

definition bounce :: "arith \<Rightarrow> real \<Rightarrow> real" where
  "bounce ar x =
     (let n1 = 7.5625; d1 = 2.75
      in if x < rnd ar (1 / d1) then rnd ar (rnd ar (n1 * x) * x)
         else if x < rnd ar (2 / d1)
         then (let x1 = rnd ar (x - rnd ar (1.5 / d1))
               in rnd ar (rnd ar (rnd ar (n1 * x1) * x1) + 0.75))
         else if x < rnd ar (2.5 / d1)
         then (let x2 = rnd ar (x - rnd ar (2.25 / d1))
               in rnd ar (rnd ar (rnd ar (n1 * x2) * x2) + 0.9375))
         else (let x3 = rnd ar (x - rnd ar (2.625 / d1))
               in rnd ar (rnd ar (rnd ar (n1 * x3) * x3) + 0.984375)))"

text \<open>Lines 789-804: the selected ramp function, linear for an unknown name.\<close>

definition modified_progress :: "arith \<Rightarrow> string \<Rightarrow> real \<Rightarrow> error + real" where
  "modified_progress ar ramp_type progress =
     (if ramp_type = ''linear'' then Inr progress
      else if ramp_type = ''ease_in'' then Inr (ease_in ar progress)
      else if ramp_type = ''ease_out'' then Inr (ease_out ar progress)
      else if ramp_type = ''ease_in_out'' then Inr (ease_in_out ar progress)
      else if ramp_type = ''exponential'' then exponential ar progress
      else if ramp_type = ''smoothstep'' then Inr (smoothstep ar progress)
      else if ramp_type = ''bounce'' then Inr (bounce ar progress)
      else Inr progress)"

text \<open>\<open>get_value\<close> (lines 778-809). It assigns no attribute: the instance is returned
  as it came. The true division of the two integers is the correctly rounded quotient
  and raises ZeroDivisionError on a zero threshold. Line 807 rounds three times: the
  difference, the product and the sum.\<close>

definition get_value ::
  "arith \<Rightarrow> ramp_node \<Rightarrow> real \<Rightarrow> real \<Rightarrow> int \<Rightarrow> string \<Rightarrow> (error + real) \<times> ramp_node" where
  "get_value ar self start end_value steps_threshold ramp_type =
     (let current_step = (case attr_i self of None \<Rightarrow> 0 | Some i \<Rightarrow> i) + 1;
          total_steps = (case attr_total_steps self of None \<Rightarrow> steps_threshold | Some t \<Rightarrow> t)
      in if current_step > steps_threshold then (Inr end_value, self)
         else if steps_threshold = 0 then (Inl ZeroDivisionError, self)
         else (let progress = rnd ar (real_of_int current_step / real_of_int steps_threshold)
               in case modified_progress ar ramp_type progress of
                    Inl e \<Rightarrow> (Inl e, self)
                  | Inr m \<Rightarrow>
                      (Inr (rnd ar (start + rnd ar (rnd ar (end_value - start) * m))), self)))"

text \<open>
  Everything that can be done with an instance: the class defines the six easing
  methods and \<open>get_value\<close>, and nothing else in the repository holds or touches an
  instance. A call names the method and its arguments; \<open>calls\<close> runs a sequence of
  calls on one instance and collects the results.
\<close>

datatype ramp_call =
    Call_ease_in real
  | Call_ease_out real
  | Call_ease_in_out real
  | Call_exponential real
  | Call_smoothstep real
  | Call_bounce real
  | Call_get_value real real int string

fun call :: "arith \<Rightarrow> ramp_call \<Rightarrow> ramp_node \<Rightarrow> (error + real) \<times> ramp_node" where
  "call ar (Call_ease_in x) self = (Inr (ease_in ar x), self)"
| "call ar (Call_ease_out x) self = (Inr (ease_out ar x), self)"
| "call ar (Call_ease_in_out x) self = (Inr (ease_in_out ar x), self)"
| "call ar (Call_exponential x) self = (exponential ar x, self)"
| "call ar (Call_smoothstep x) self = (Inr (smoothstep ar x), self)"
| "call ar (Call_bounce x) self = (Inr (bounce ar x), self)"
| "call ar (Call_get_value start end_value steps_threshold ramp_type) self =
     get_value ar self start end_value steps_threshold ramp_type"

fun calls :: "arith \<Rightarrow> ramp_call list \<Rightarrow> ramp_node \<Rightarrow> (error + real) list \<times> ramp_node" where
  "calls ar [] self = ([], self)"
| "calls ar (c # cs) self =
     (case call ar c self of
        (r, self1) \<Rightarrow> (case calls ar cs self1 of (rs, self2) \<Rightarrow> (r # rs, self2)))"

text \<open>The value of the curve at step \<open>k\<close> of the threshold, in the words of the
  specification: \<open>start + (end - start) * f (k / threshold)\<close>, computed in the
  arithmetic \<open>ar\<close>.\<close>

definition curve_value ::
  "arith \<Rightarrow> real \<Rightarrow> real \<Rightarrow> int \<Rightarrow> string \<Rightarrow> int \<Rightarrow> error + real" where
  "curve_value ar start end_value steps_threshold ramp_type k =
     (case modified_progress ar ramp_type (rnd ar (real_of_int k / real_of_int steps_threshold)) of
        Inl e \<Rightarrow> Inl e
      | Inr m \<Rightarrow> Inr (rnd ar (start + rnd ar (rnd ar (end_value - start) * m))))"

text \<open>What is asked of the exponential function of the C library where a statement
  about the machine needs it: on the interval from 0 to 0.5 its values lie between 1
  and 1.75 (\<open>exp 0.5\<close> is about 1.65), and its value at 1 is at least 2.\<close>

definition libm_exp_ok :: "(real \<Rightarrow> real) \<Rightarrow> bool" where
  "libm_exp_ok f = ((\<forall>x. 0 \<le> x \<and> x \<le> 1 / 2 \<longrightarrow> 1 \<le> f x \<and> f x \<le> 7 / 4) \<and> 2 \<le> f 1)"

definition monotonic_ramp :: "string \<Rightarrow> bool" where
  "monotonic_ramp ramp_type =
     (ramp_type \<in> set [''linear'', ''ease_in'', ''ease_out'', ''ease_in_out'', ''exponential'',
                        ''smoothstep''])"

section \<open>Film grain\<close>

text \<open>
  \<open>FilmGrainNode.apply_film_grain\<close> (lines 497-581). The image is a tensor of shape
  \<open>[batch, height, width, channels]\<close> of floats. Apart from the noise sizes of line
  502, floating-point numbers are idealised as real numbers here: the claim about this
  node is one up to a floating-point tolerance. The one place where the code computes
  \<open>0 / 0\<close> (the hue of a pixel whose channels are all equal) is modelled as the
  not-a-number it is, \<open>None\<close>, on which every comparison is false.
\<close>

type_synonym rgb = "real \<times> real \<times> real"

type_synonym tensor = "nat \<Rightarrow> nat \<Rightarrow> nat \<Rightarrow> nat \<Rightarrow> real"

text \<open>
  \<open>torch.randn\<close> and the bilinear \<open>interpolate\<close> belong to the tensor runtime and are
  parameters: the two draws, each given the shape asked for and returning the tensor
  drawn, and the resize of a tensor to a height and a width. Each of them can fail,
  the draws when the shape asked for cannot be allocated.
\<close>

record sampler =
  randn_mono :: "nat \<Rightarrow> nat \<Rightarrow> nat \<Rightarrow> nat \<Rightarrow> error + tensor"
  randn_color :: "nat \<Rightarrow> nat \<Rightarrow> nat \<Rightarrow> nat \<Rightarrow> error + tensor"
  interpolate :: "real image \<Rightarrow> nat \<Rightarrow> nat \<Rightarrow> error + tensor"

text \<open>\<open>rmod\<close> is the remainder \<open>%\<close> of tensors, with the sign of the divisor.\<close>

definition rmod :: "real \<Rightarrow> real \<Rightarrow> real" where
  "rmod x y = x - y * of_int \<lfloor>x / y\<rfloor>"

definition clamp :: "real \<Rightarrow> real \<Rightarrow> real \<Rightarrow> real" where
  "clamp x lo hi = min (max x lo) hi"

definition luminance :: "rgb \<Rightarrow> real" where
  "luminance p = (case p of (r, g, b) \<Rightarrow> 0.299 * r + 0.587 * g + 0.114 * b)"

text \<open>The first three channels of a pixel, and a channel of a colour.\<close>

definition rgb_of :: "(nat \<Rightarrow> real) \<Rightarrow> rgb" where
  "rgb_of p = (p 0, p 1, p 2)"

definition channel :: "rgb \<Rightarrow> nat \<Rightarrow> real" where
  "channel p c = (case p of (r, g, b) \<Rightarrow> if c = 0 then r else if c = 1 then g else b)"

text \<open>
  Line 502: \<open>max(1, int(size / grain_size))\<close>. The division of the integer size by the
  float raises ZeroDivisionError for a grain size of zero; the quotient is a double,
  infinite when the exact quotient reaches \<open>overflow_bound\<close>, and \<open>int\<close> of an
  infinite double raises OverflowError; \<open>int\<close> of a finite one cuts the fraction off.
\<close>

definition py_int :: "real \<Rightarrow> int" where
  "py_int x = (if 0 \<le> x then \<lfloor>x\<rfloor> else \<lceil>x\<rceil>)"

definition noise_size :: "nat \<Rightarrow> real \<Rightarrow> error + nat" where
  "noise_size n grain_size =
     (if grain_size = 0 then Inl ZeroDivisionError
      else if overflow_bound \<le> \<bar>real n / grain_size\<bar> then Inl OverflowError
      else Inr (nat (max 1 (py_int (to_double (real n / grain_size))))))"

text \<open>Lines 502-518: the two draws, their blend, and the resize to the size of the
  image unless the grain size is 1.\<close>

definition film_noise :: "sampler \<Rightarrow> real image \<Rightarrow> real \<Rightarrow> real \<Rightarrow> error + tensor" where
  "film_noise rt img grain_size grain_saturation =
     (case noise_size (height img) grain_size of
        Inl e \<Rightarrow> Inl e
      | Inr noise_h \<Rightarrow>
     (case noise_size (width img) grain_size of
        Inl e \<Rightarrow> Inl e
      | Inr noise_w \<Rightarrow>
     (case randn_mono rt (batch img) noise_h noise_w 1 of
        Inl e \<Rightarrow> Inl e
      | Inr mono_noise \<Rightarrow>
     (case randn_color rt (batch img) noise_h noise_w (channels img) of
        Inl e \<Rightarrow> Inl e
      | Inr color_noise \<Rightarrow>
          (let noise = (\<lambda>b y x c. mono_noise b y x 0 * (1 - grain_saturation)
                                     + color_noise b y x c * grain_saturation)
           in if grain_size \<noteq> 1
              then interpolate rt
                     \<lparr>batch = batch img, height = noise_h, width = noise_w,
                      channels = channels img, px = noise\<rparr>
                     (height img) (width img)
              else Inr noise)))))"

text \<open>Lines 522-529: the grain, weighted by the brightness of the pixel (from its
  first three channels), is added to every channel.\<close>

definition grainy_img :: "real image \<Rightarrow> tensor \<Rightarrow> real \<Rightarrow> real \<Rightarrow> tensor" where
  "grainy_img img noise intensity brightness_impact =
     (\<lambda>b y x c.
        (let brightness = luminance (rgb_of (px img b y x));
             brightness_factor = (1 - brightness_impact) + brightness_impact * brightness
         in px img b y x c + (noise b y x c - 0.5) * intensity * brightness_factor))"

text \<open>Lines 546-549: the hue, by three masked assignments of which a later one
  overwrites an earlier one. With all channels equal the quotient is \<open>0 / 0\<close>.\<close>

definition hue :: "rgb \<Rightarrow> real option" where
  "hue p =
     (case p of (r, g, b) \<Rightarrow>
        (let v = max r (max g b); diff = v - min r (min g b);
             h0 = Some 0;
             h1 = (if r = v
                   then (if diff = 0 then None
                         else Some (rmod (60 * (g - b) / diff) 360 / 360))
                   else h0);
             h2 = (if g = v
                   then (if diff = 0 then None else Some ((120 + 60 * (b - r) / diff) / 360))
                   else h1);
             h3 = (if b = v
                   then (if diff = 0 then None else Some ((240 + 60 * (r - g) / diff) / 360))
                   else h2)
         in h3))"

text \<open>Lines 559-571: the six masks of the conversion back, none of which holds for a
  hue that is not a number.\<close>

definition sector_rgb :: "real \<Rightarrow> real option \<Rightarrow> rgb" where
  "sector_rgb c hopt =
     (case hopt of
        None \<Rightarrow> (0, 0, 0)
      | Some h \<Rightarrow>
          (let x = c * (1 - \<bar>rmod (h * 6) 2 - 1\<bar>)
           in if h < 1 / 6 then (c, x, 0)
              else if h < 2 / 6 then (x, c, 0)
              else if h < 3 / 6 then (0, c, x)
              else if h < 4 / 6 then (0, x, c)
              else if h < 5 / 6 then (x, 0, c)
              else (c, 0, x)))"

text \<open>Lines 534-573: the saturation adjustment of the colour mode, on a pixel of
  three channels.\<close>

definition adjust_saturation :: "real \<Rightarrow> rgb \<Rightarrow> rgb" where
  "adjust_saturation image_saturation p =
     (case p of (r, g, b) \<Rightarrow>
        (let v = max r (max g b); diff = v - min r (min g b);
             s = (if v \<noteq> 0 then diff / v else 0);
             s1 = clamp (s * image_saturation) 0 1;
             c = v * s1;
             m = v - c
         in case sector_rgb c (hue (r, g, b)) of (r1, g1, b1) \<Rightarrow> (r1 + m, g1 + m, b1 + m)))"

text \<open>
  \<open>apply_film_grain\<close>. The noise comes first (lines 502-518). Line 522 reads the first
  three channels and raises IndexError on an image of fewer. In the colour mode the
  masked assignments of lines 559-571 store three values in every pixel selected, which
  the runtime refuses for an image of more than three channels; the black and white
  mode returns three channels whatever the image has; any other mode name leaves the
  grainy image as it is. Line 579 clamps every value.
\<close>

definition apply_film_grain ::
  "sampler \<Rightarrow> real image \<Rightarrow> real \<Rightarrow> real \<Rightarrow> real \<Rightarrow> real \<Rightarrow> real \<Rightarrow> string
     \<Rightarrow> error + real image" where
  "apply_film_grain rt img intensity grain_size grain_saturation brightness_impact
      image_saturation mode =
     (case film_noise rt img grain_size grain_saturation of
        Inl e \<Rightarrow> Inl e
      | Inr noise \<Rightarrow>
          if channels img < 3 then Inl IndexError
          else (let grainy = grainy_img img noise intensity brightness_impact
                in if mode = ''Color''
                   then (if channels img \<noteq> 3 then Inl (RuntimeError ''shape mismatch'')
                         else Inr (img\<lparr>px := (\<lambda>b y x c.
                                 clamp (channel (adjust_saturation image_saturation
                                                   (rgb_of (grainy b y x))) c) 0 1)\<rparr>))
                   else if mode = ''Black and White''
                   then Inr (img\<lparr>channels := 3,
                                 px := (\<lambda>b y x c. clamp (luminance (rgb_of (grainy b y x))) 0 1)\<rparr>)
                   else Inr (img\<lparr>px := (\<lambda>b y x c. clamp (grainy b y x c) 0 1)\<rparr>)))"

text \<open>A pixel whose first three channels lie in the range of the host's images.\<close>

definition unit_rgb :: "rgb \<Rightarrow> bool" where
  "unit_rgb p = (case p of (r, g, b) \<Rightarrow> 0 \<le> r \<and> r \<le> 1 \<and> 0 \<le> g \<and> g \<le> 1 \<and> 0 \<le> b \<and> b \<le> 1)"
section \<open>Sample inputs\<close>

text \<open>A working directory with nothing cached, no API key, and servers that answer
  every request: the concrete state the evaluated examples start from.\<close>

definition sample_world :: world where
  "sample_world =
     \<lparr>cwd = ''/comfy'', files = [''/comfy'' \<mapsto> Dir], environ = Map.empty,
      remote = (\<lambda>u. Some (200, ''weights'')),
      hub_reply = (\<lambda>r. Inr (cache_dir r @ ''/'' @ filename r)),
      requests = [], hub_calls = [], torch_loads = [], stdout = []\<rparr>"

text \<open>A host whose tensor reader returns the bytes of the file and whose merge
  appends the payload to the names of the model and the text encoder.\<close>

definition sample_comfy :: "(string, string, string) comfy" where
  "sample_comfy =
     \<lparr>read_tensors = (\<lambda>w p. case files w p of
                               Some (File content) \<Rightarrow> Inr content
                             | Some Dir \<Rightarrow> Inl (ExternalError ''is a directory'')
                             | None \<Rightarrow> Inl (ExternalError ''no such file'')),
      load_lora_for_models = (\<lambda>m c l sm sc. Inr (m @ ''+'' @ l, c @ ''+'' @ l))\<rparr>"

text \<open>A batch of one 2 by 2 image with three channels; the element at row \<open>y\<close>,
  column \<open>x\<close> is \<open>10 * y + x + 1\<close> in every channel.\<close>

definition sample_image :: "int image" where
  "sample_image =
     \<lparr>batch = 1, height = 2, width = 2, channels = 3,
      px = (\<lambda>b y x c. 10 * int y + int x + 1)\<rparr>"

text \<open>Fixed noise draws with a resize that changes nothing, and an image of one row:
  a pure red pixel and a bluish one.\<close>

definition sample_sampler :: sampler where
  "sample_sampler =
     \<lparr>randn_mono = (\<lambda>b h w c. Inr (\<lambda>b y x c. 3 / 10)),
      randn_color = (\<lambda>b h w c. Inr (\<lambda>b y x c. if c = 0 then 1 / 10 else if c = 1 then - 1 / 5 else 7 / 10)),
      interpolate = (\<lambda>noise h w. Inr (px noise))\<rparr>"

definition sample_rgb_image :: "real image" where
  "sample_rgb_image =
     \<lparr>batch = 1, height = 1, width = 2, channels = 3,
      px = (\<lambda>b y x c. if x = 0 then (if c = 0 then 1 else 0)
                       else (if c = 0 then 1 / 5 else if c = 1 then 1 / 2 else 4 / 5))\<rparr>"

section \<open>Strings, paths and the cache directory\<close>

lemma split_from_not_Nil: "split_from sep acc s \<noteq> []"
  by (induction sep acc s rule: split_from.induct) auto

lemma index_0_split: "index (split s sep) 0 = Inr (hd (split s sep))"
proof -
  have "split s sep \<noteq> []" by (simp add: split_def split_from_not_Nil)
  then show ?thesis by (cases "split s sep") (simp_all add: index_def)
qed

lemma suffix_single: "suffix [c] a \<longleftrightarrow> a \<noteq> [] \<and> last a = c"
  by (cases a rule: rev_cases) (auto simp: suffix_def)

lemma path_join_literal:
  "b \<noteq> [] \<Longrightarrow> hd b \<noteq> CHR ''/'' \<Longrightarrow>
   path_join a b = a @ (if a = [] \<or> last a = CHR ''/'' then [] else ''/'') @ b"
  by (cases b) (auto simp: path_join_def startswith_def endswith_def suffix_single)

lemma cache_stable:
  assumes c: "fst (find_or_create_cache w) = c"
    and cwd: "cwd w2 = cwd w"
    and mono: "\<And>p. files w p \<noteq> None \<Longrightarrow> files w2 p \<noteq> None"
    and new: "\<And>p. files w p = None \<Longrightarrow> files w2 p \<noteq> None \<Longrightarrow> prefix p (c @ ''/'' @ x)"
    and ex: "files w2 c \<noteq> None"
  shows "find_or_create_cache w2 = (c, w2)"
proof -
  define s where "s = (if cwd w = [] \<or> last (cwd w) = CHR ''/'' then [] else ''/'')"
  define A where "A = cwd w @ s @ ''ComfyUI''"
  have jA: "path_join (cwd w) ''ComfyUI'' = A"
    by (simp add: path_join_literal A_def s_def)
  define cwd1 where "cwd1 = (if files w A \<noteq> None then A else cwd w)"
  define s1 where "s1 = (if files w A \<noteq> None then ''/'' else s)"
  define B where "B = cwd1 @ s1 @ ''models''"
  have jB: "path_join cwd1 ''models'' = B"
    by (auto simp add: path_join_literal B_def cwd1_def s1_def s_def A_def)
  define cwd2 where "cwd2 = (if files w B \<noteq> None then B else cwd1)"
  define s2 where "s2 = (if files w B \<noteq> None then ''/'' else s1)"
  have jC: "path_join cwd2 ''huggingface_cache'' = cwd2 @ s2 @ ''huggingface_cache''"
    by (auto simp add: path_join_literal B_def cwd1_def cwd2_def s2_def s1_def s_def A_def)
  have focc: "\<And>v::world. cwd v = cwd w \<Longrightarrow> (files v A \<noteq> None \<longleftrightarrow> files w A \<noteq> None) \<Longrightarrow>
     (files v B \<noteq> None \<longleftrightarrow> files w B \<noteq> None) \<Longrightarrow>
     fst (find_or_create_cache v) = cwd2 @ s2 @ ''huggingface_cache'' \<and>
     (files v (cwd2 @ s2 @ ''huggingface_cache'') \<noteq> None \<longrightarrow> snd (find_or_create_cache v) = v)"
  proof -
    fix v :: world assume v: "cwd v = cwd w" "files v A \<noteq> None \<longleftrightarrow> files w A \<noteq> None"
      "files v B \<noteq> None \<longleftrightarrow> files w B \<noteq> None"
    have 1: "(if path_exists v (path_join (cwd v) ''ComfyUI'') then path_join (cwd v) ''ComfyUI'' else cwd v) = cwd1"
      using v by (simp add: path_exists_def jA cwd1_def)
    have 2: "(if path_exists v (path_join cwd1 ''models'') then path_join cwd1 ''models'' else cwd1) = cwd2"
      using v by (simp add: path_exists_def jB cwd2_def)
    show "fst (find_or_create_cache v) = cwd2 @ s2 @ ''huggingface_cache'' \<and>
     (files v (cwd2 @ s2 @ ''huggingface_cache'') \<noteq> None \<longrightarrow> snd (find_or_create_cache v) = v)"
      unfolding find_or_create_cache_def Let_def 1 2 jC by (simp add: path_exists_def)
  qed
  have c_eq: "c = cwd2 @ s2 @ ''huggingface_cache''"
    using focc[of w] c by simp
  have nA: "\<not> prefix A (c @ ''/'' @ x)" if "files w A = None"
    using that by (auto simp: c_eq cwd2_def cwd1_def B_def A_def s2_def s1_def)
  have nB: "\<not> prefix B (c @ ''/'' @ x)" if "files w B = None"
    using that by (auto simp: c_eq cwd2_def B_def s2_def)
  have eA: "files w2 A \<noteq> None \<longleftrightarrow> files w A \<noteq> None"
    using mono[of A] new[of A] nA by blast
  have eB: "files w2 B \<noteq> None \<longleftrightarrow> files w B \<noteq> None"
    using mono[of B] new[of B] nB by blast
  from focc[OF cwd eA eB] ex show ?thesis
    by (simp add: c_eq prod_eq_iff)
qed

lemma prefix_rev_dropWhile: "prefix (rev (dropWhile P (rev p))) p"
proof -
  have "rev p = takeWhile P (rev p) @ dropWhile P (rev p)" by simp
  then have "p = rev (dropWhile P (rev p)) @ rev (takeWhile P (rev p))"
    by (metis rev_append rev_rev_ident)
  then show ?thesis by (metis prefixI)
qed

lemma prefix_dirname: "prefix (dirname p) p"
proof -
  let ?h = "rev (dropWhile (\<lambda>c. c \<noteq> CHR ''/'') (rev p))"
  have 1: "prefix ?h p" by (rule prefix_rev_dropWhile)
  have 2: "prefix (rev (dropWhile (\<lambda>c. c = CHR ''/'') (rev ?h))) ?h" by (rule prefix_rev_dropWhile)
  from 1 2 show ?thesis
    unfolding dirname_def Let_def by (auto intro: prefix_order.trans)
qed

lemma ancestors_prefix: "p \<in> set (ancestors d) \<Longrightarrow> prefix p d"
  by (auto simp: ancestors_def take_is_prefix)

lemma find_or_create_cache_snd:
  "snd (find_or_create_cache w) =
     (if path_exists w (fst (find_or_create_cache w)) then w
      else mkdir (fst (find_or_create_cache w))
             (print_line ''Creating huggingface_cache directory within comfy'' w))"
  by (simp add: find_or_create_cache_def Let_def)

lemma find_or_create_cache_effect:
  assumes "find_or_create_cache w = (c, w1)"
  shows "cwd w1 = cwd w" and "files w1 c \<noteq> None"
    and "\<And>p. files w p \<noteq> None \<Longrightarrow> files w1 p \<noteq> None"
    and "\<And>p. files w p = None \<Longrightarrow> files w1 p \<noteq> None \<Longrightarrow> p = c"
    and "requests w1 = requests w"
proof -
  from assms have c: "fst (find_or_create_cache w) = c" by simp
  from assms have "snd (find_or_create_cache w) = w1" by simp
  then have w1: "w1 = (if path_exists w c then w
      else mkdir c (print_line ''Creating huggingface_cache directory within comfy'' w))"
    unfolding find_or_create_cache_snd c by simp
  show "cwd w1 = cwd w" by (simp add: w1 mkdir_def print_line_def)
  show "files w1 c \<noteq> None" by (simp add: w1 mkdir_def print_line_def path_exists_def)
  show "\<And>p. files w p \<noteq> None \<Longrightarrow> files w1 p \<noteq> None"
    by (simp add: w1 mkdir_def print_line_def)
  show "\<And>p. files w p = None \<Longrightarrow> files w1 p \<noteq> None \<Longrightarrow> p = c"
    by (simp add: w1 mkdir_def print_line_def split: if_splits)
  show "requests w1 = requests w" by (simp add: w1 mkdir_def print_line_def)
qed

lemma makedirs_new:
  "files w p = None \<Longrightarrow> files (makedirs d w) p \<noteq> None \<Longrightarrow> prefix p d"
  by (auto simp: makedirs_def split: if_splits dest: ancestors_prefix)

lemma makedirs_mono: "files w p \<noteq> None \<Longrightarrow> files (makedirs d w) p \<noteq> None"
  by (auto simp: makedirs_def)

lemma download_file_effect:
  assumes "download_file url f w1 = (Inr u, w2)"
  shows "cwd w2 = cwd w1" and "files w2 f \<noteq> None"
    and "\<And>p. files w1 p \<noteq> None \<Longrightarrow> files w2 p \<noteq> None"
    and "\<And>p. files w1 p = None \<Longrightarrow> files w2 p \<noteq> None \<Longrightarrow> prefix p f"
proof -
  from assms obtain content where
    w2: "w2 = write_file f content ((makedirs (dirname f) w1)\<lparr>requests := requests w1 @ [url]\<rparr>)"
    by (auto simp: download_file_def Let_def makedirs_def split: if_splits option.splits)
  show "cwd w2 = cwd w1" by (simp add: w2 write_file_def makedirs_def)
  show "files w2 f \<noteq> None" by (simp add: w2 write_file_def)
  show "files w2 p \<noteq> None" if "files w1 p \<noteq> None" for p
    using makedirs_mono[OF that, of "dirname f"] by (simp add: w2 write_file_def)
  show "prefix p f" if "files w1 p = None" "files w2 p \<noteq> None" for p
  proof (cases "p = f")
    case True then show ?thesis by simp
  next
    case False
    with that(2) have "files (makedirs (dirname f) w1) p \<noteq> None"
      by (simp add: w2 write_file_def)
    from makedirs_new[OF that(1) this] have "prefix p (dirname f)" .
    with prefix_dirname[of f] show ?thesis using prefix_order.trans by blast
  qed
qed

lemma cache_name: "\<exists>P. fst (find_or_create_cache w) = P @ ''huggingface_cache''"
proof -
  obtain X where "fst (find_or_create_cache w) = path_join X ''huggingface_cache''"
    unfolding find_or_create_cache_def Let_def
    by (simp only: if_distrib[of fst] fst_conv if_cancel)
  then show ?thesis by (simp add: path_join_literal)
qed

lemma lora_path_shape:
  assumes "provider \<noteq> []" "hd provider \<noteq> CHR ''/''" "last provider \<noteq> CHR ''/''"
    and "f \<noteq> []" "hd f \<noteq> CHR ''/''" and "c = fst (find_or_create_cache w)"
  shows "path_join (path_join c provider) f = c @ ''/'' @ (provider @ ''/'' @ f)"
proof -
  from cache_name[of w] assms(6) obtain P where c: "c = P @ ''huggingface_cache''" by auto
  show ?thesis using assms(1-5) by (simp add: path_join_literal c)
qed

lemma fetch_cached_again:
  assumes first: "fetch_cached provider f u w = (Inr p, w')"
    and prov: "provider \<noteq> []" "hd provider \<noteq> CHR ''/''" "last provider \<noteq> CHR ''/''"
    and f: "f \<noteq> []" "hd f \<noteq> CHR ''/''"
  shows "fetch_cached provider f u' w' = (Inr p, w')"
proof -
  obtain c w1 where focc: "find_or_create_cache w = (c, w1)" by (cases "find_or_create_cache w")
  define L where "L = path_join (path_join c provider) f"
  have L: "L = c @ ''/'' @ (provider @ ''/'' @ f)"
    unfolding L_def using lora_path_shape[OF prov f, of c w] focc by simp
  note e1 = find_or_create_cache_effect[OF focc]
  have pL: "p = L" using first focc
    by (auto simp: fetch_cached_def Let_def L_def split: if_splits prod.splits sum.splits)
  have stable: "find_or_create_cache w' = (c, w')" and hit: "path_exists w' L"
  proof -
    show "find_or_create_cache w' = (c, w')"
    proof (cases "path_exists w1 L")
      case True
      then have w': "w' = w1" using first focc
        by (auto simp: fetch_cached_def Let_def L_def split: if_splits prod.splits sum.splits)
      show ?thesis
      proof (rule cache_stable[where w = w and x = "provider @ ''/'' @ f"])
        show "fst (find_or_create_cache w) = c" using focc by simp
        show "cwd w' = cwd w" using e1(1) w' by simp
        show "files w' c \<noteq> None" using e1(2) w' by simp
        show "\<And>p. files w p \<noteq> None \<Longrightarrow> files w' p \<noteq> None" using e1(3) w' by simp
        show "\<And>p. files w p = None \<Longrightarrow> files w' p \<noteq> None \<Longrightarrow> prefix p (c @ ''/'' @ provider @ ''/'' @ f)"
          using e1(4) w' by auto
      qed
    next
      case False
      then obtain un where dl: "download_file u L w1 = (Inr un, w')" using first focc
        by (auto simp: fetch_cached_def Let_def L_def split: if_splits prod.splits sum.splits)
      note e2 = download_file_effect[OF dl]
      show ?thesis
      proof (rule cache_stable[where w = w and x = "provider @ ''/'' @ f"])
        show "fst (find_or_create_cache w) = c" using focc by simp
        show "cwd w' = cwd w" using e1(1) e2(1) by simp
        show "files w' c \<noteq> None" using e1(2) e2(3) by blast
        show "\<And>p. files w p \<noteq> None \<Longrightarrow> files w' p \<noteq> None" using e1(3) e2(3) by blast
        show "prefix q (c @ ''/'' @ provider @ ''/'' @ f)" if "files w q = None" "files w' q \<noteq> None" for q
        proof (cases "files w1 q = None")
          case True then show ?thesis using e2(4)[OF True that(2)] L by simp
        next
          case False then show ?thesis using e1(4)[OF that(1)] by auto
        qed
      qed
    qed
    show "path_exists w' L"
    proof (cases "path_exists w1 L")
      case True
      then have "w' = w1" using first focc
        by (auto simp: fetch_cached_def Let_def L_def split: if_splits prod.splits sum.splits)
      with True show ?thesis by simp
    next
      case False
      then obtain un where dl: "download_file u L w1 = (Inr un, w')" using first focc
        by (auto simp: fetch_cached_def Let_def L_def split: if_splits prod.splits sum.splits)
      from download_file_effect(2)[OF dl] show ?thesis by (simp add: path_exists_def)
    qed
  qed
  show ?thesis using stable hit pL by (simp add: fetch_cached_def Let_def L_def)
qed

lemma unat_and_15_less: "unat ((x::128 word) AND 15) < 16"
proof -
  have "x AND 15 \<le> 15" by (rule word_and_le1)
  then have "unat (x AND 15) \<le> unat (15::128 word)" by (simp add: word_le_nat_alt)
  then show ?thesis by simp
qed

lemma hexdigit_not_slash: "n < 16 \<Longrightarrow> hexdigit n \<noteq> CHR ''/''"
  by (auto simp: hexdigit_def less_Suc_eq numeral_eq_Suc)

lemma hexdigest_Cons: "\<exists>c cs. hexdigest d = c # cs \<and> c \<noteq> CHR ''/''"
proof -
  have "[0..<32] = 0 # [1..<32]" by (simp add: upt_conv_Cons)
  then show ?thesis
    by (simp add: hexdigest_def hexdigit_not_slash unat_and_15_less)
qed

lemma filename_shape:
  "get_filename_from_url md5 url ext \<noteq> [] \<and> hd (get_filename_from_url md5 url ext) \<noteq> CHR ''/''"
  using hexdigest_Cons[of "md5 url"] by (auto simp: get_filename_from_url_def)

lemma civitai_branch_again:
  assumes "civitai_branch md5 u w = (Inr p, w')"
  shows "civitai_branch md5 u w' = (Inr p, w')"
proof -
  from assms obtain u2 where fx: "civitai_fix_url u = Inr u2" and ok: "contains ''SafeTensor'' u2"
    and fc: "fetch_cached ''civitai'' (get_filename_from_url md5 u2 ''safetensors'') (add_api_key w u2) w = (Inr p, w')"
    by (auto simp: civitai_branch_def Let_def split: sum.splits if_splits)
  have "fetch_cached ''civitai'' (get_filename_from_url md5 u2 ''safetensors'') (add_api_key w' u2) w' = (Inr p, w')"
    using fetch_cached_again[OF fc] filename_shape[of md5 u2 "''safetensors''"] by simp
  then show ?thesis using fx ok by (simp add: civitai_branch_def Let_def)
qed

lemma general_branch_again:
  assumes "general_branch md5 u w = (Inr p, w')"
  shows "general_branch md5 u w' = (Inr p, w')"
proof -
  from assms obtain pa where ix: "index (split (lower u) ''?'') 0 = Inr pa" and ok: "endswith pa ''safetensors''"
    and fc: "fetch_cached ''general'' (get_filename_from_url md5 u ''safetensors'') u w = (Inr p, w')"
    by (auto simp: general_branch_def Let_def split: sum.splits if_splits)
  have "fetch_cached ''general'' (get_filename_from_url md5 u ''safetensors'') u w' = (Inr p, w')"
    using fetch_cached_again[OF fc] filename_shape[of md5 u "''safetensors''"] by simp
  then show ?thesis using ix ok by (simp add: general_branch_def Let_def)
qed


section \<open>Format checks come before any I/O\<close>

text \<open>
  Claim C2, as the code has it. Each provider branch has its own format check, and a
  reference that fails the check of its branch raises ValueError with the world left
  exactly as it was (no request, no hub call, no file or directory written):
  \<^item> hub: the URL, after the trailing \<open>?download=true\<close> is cut and \<open>/blob/\<close> is
    rewritten, does not end in \<open>safetensors\<close> (case-insensitively);
  \<^item> marketplace: the URL has no \<open>modelVersionId\<close> to rewrite and does not contain
    \<open>SafeTensor\<close>;
  \<^item> generic: the part of the URL before the first \<open>?\<close> does not end in
    \<open>safetensors\<close> (case-insensitively).
\<close>

theorem format_check_before_io:
  assumes hub: "contains ''huggingface.co'' (strip url) \<Longrightarrow>
                  \<not> endswith (lower (hf_fix_url (strip url))) ''safetensors''"
    and market: "\<not> contains ''huggingface.co'' (strip url) \<Longrightarrow> contains ''civitai.com'' (strip url) \<Longrightarrow>
                  \<not> contains ''modelVersionId'' (strip url) \<and> \<not> contains ''SafeTensor'' (strip url)"
    and general: "\<not> contains ''huggingface.co'' (strip url) \<Longrightarrow> \<not> contains ''civitai.com'' (strip url) \<Longrightarrow>
                  \<not> endswith (hd (split (lower (strip url)) ''?'')) ''safetensors''"
  shows "\<exists>msg. get_lora_from_url md5 url w = (Inl (ValueError msg), w)"
proof (cases "strip url = [] \<or> \<not> startswith (strip url) ''http''")
  case True
  then show ?thesis by (auto simp: get_lora_from_url_def Let_def)
next
  case ok: False
  show ?thesis
  proof (cases "contains ''huggingface.co'' (strip url)")
    case True
    with ok hub show ?thesis
      by (simp add: get_lora_from_url_def Let_def hub_branch_def)
  next
    case nohub: False
    show ?thesis
    proof (cases "contains ''civitai.com'' (strip url)")
      case True
      with ok nohub market[OF nohub True] show ?thesis
        by (simp add: get_lora_from_url_def Let_def civitai_branch_def civitai_fix_url_def)
    next
      case False
      with ok nohub general[OF nohub False] show ?thesis
        by (simp add: get_lora_from_url_def Let_def general_branch_def index_0_split)
    qed
  qed
qed


theorem format_check_before_io_witness:
  "(\<not> contains ''huggingface.co'' (strip ''https://example.com/model.ckpt?name=x.safetensors'') \<and>
    \<not> contains ''civitai.com'' (strip ''https://example.com/model.ckpt?name=x.safetensors'') \<and>
    \<not> endswith (hd (split (lower (strip ''https://example.com/model.ckpt?name=x.safetensors'')) ''?''))
        ''safetensors'' \<and>
    (\<exists>msg. get_lora_from_url (\<lambda>u. 0) ''https://example.com/model.ckpt?name=x.safetensors''
       sample_world = (Inl (ValueError msg), sample_world))) \<and>
   (contains ''huggingface.co'' (strip ''https://huggingface.co/owner/repo/resolve/main/model.bin'') \<and>
    \<not> endswith (lower (hf_fix_url (strip ''https://huggingface.co/owner/repo/resolve/main/model.bin'')))
        ''safetensors'' \<and>
    (\<exists>msg. get_lora_from_url (\<lambda>u. 0) ''https://huggingface.co/owner/repo/resolve/main/model.bin''
       sample_world = (Inl (ValueError msg), sample_world))) \<and>
   (contains ''civitai.com'' (strip ''https://civitai.com/models/12345'') \<and>
    \<not> contains ''modelVersionId'' (strip ''https://civitai.com/models/12345'') \<and>
    \<not> contains ''SafeTensor'' (strip ''https://civitai.com/models/12345'') \<and>
    (\<exists>msg. get_lora_from_url (\<lambda>u. 0) ''https://civitai.com/models/12345''
       sample_world = (Inl (ValueError msg), sample_world)))"
proof -
  have g: "\<exists>msg. get_lora_from_url (\<lambda>u. 0) ''https://example.com/model.ckpt?name=x.safetensors''
       sample_world = (Inl (ValueError msg), sample_world)"
    by (rule format_check_before_io; code_simp)
  have h: "\<exists>msg. get_lora_from_url (\<lambda>u. 0) ''https://huggingface.co/owner/repo/resolve/main/model.bin''
       sample_world = (Inl (ValueError msg), sample_world)"
    by (rule format_check_before_io; code_simp)
  have m: "\<exists>msg. get_lora_from_url (\<lambda>u. 0) ''https://civitai.com/models/12345''
       sample_world = (Inl (ValueError msg), sample_world)"
    by (rule format_check_before_io; code_simp)
  have facts:
    "\<not> contains ''huggingface.co'' (strip ''https://example.com/model.ckpt?name=x.safetensors'')"
    "\<not> contains ''civitai.com'' (strip ''https://example.com/model.ckpt?name=x.safetensors'')"
    "\<not> endswith (hd (split (lower (strip ''https://example.com/model.ckpt?name=x.safetensors'')) ''?''))
        ''safetensors''"
    "contains ''huggingface.co'' (strip ''https://huggingface.co/owner/repo/resolve/main/model.bin'')"
    "\<not> endswith (lower (hf_fix_url (strip ''https://huggingface.co/owner/repo/resolve/main/model.bin'')))
        ''safetensors''"
    "contains ''civitai.com'' (strip ''https://civitai.com/models/12345'')"
    "\<not> contains ''modelVersionId'' (strip ''https://civitai.com/models/12345'')"
    "\<not> contains ''SafeTensor'' (strip ''https://civitai.com/models/12345'')"
    by code_simp+
  from g h m facts show ?thesis by blast
qed

text \<open>
  The claim as stated fails on the marketplace branch: the path of the canonical
  download URL does not end in the safetensors suffix, yet the reference is accepted
  and the file is requested.
\<close>

theorem format_check_counterexample:
  "\<not> endswith (hd (split (lower
        ''https://civitai.com/api/download/models/123?type=Model&format=SafeTensor'') ''?''))
      ''safetensors'' \<and>
   fst (get_lora_from_url (\<lambda>u. 0)
        ''https://civitai.com/api/download/models/123?type=Model&format=SafeTensor'' sample_world)
     = Inr ''/comfy/huggingface_cache/civitai/00000000000000000000000000000000.safetensors'' \<and>
   requests (snd (get_lora_from_url (\<lambda>u. 0)
        ''https://civitai.com/api/download/models/123?type=Model&format=SafeTensor'' sample_world))
     = [''https://civitai.com/api/download/models/123?type=Model&format=SafeTensor'']"
  by code_simp

section \<open>A second resolution is served from the cache\<close>

text \<open>
  Claim C3. For a marketplace or generic reference (one the hub branch does not take),
  if a call returns a local path, then a second call with the same reference string, in
  the world the first call left behind, returns the same path and leaves that world
  unchanged: in particular the log of HTTP requests does not grow.
\<close>

theorem second_resolution_hits_cache:
  assumes "\<not> contains ''huggingface.co'' (strip url)"
    and "get_lora_from_url md5 url w = (Inr p, w')"
  shows "get_lora_from_url md5 url w' = (Inr p, w') \<and>
         requests (snd (get_lora_from_url md5 url w')) = requests w'"
proof -
  have "get_lora_from_url md5 url w' = (Inr p, w')"
  proof (cases "contains ''civitai.com'' (strip url)")
    case True
    with assms have "civitai_branch md5 (strip url) w = (Inr p, w')"
      by (simp add: get_lora_from_url_def Let_def split: if_splits)
    from civitai_branch_again[OF this] assms True show ?thesis
      by (simp add: get_lora_from_url_def Let_def split: if_splits)
  next
    case False
    with assms have "general_branch md5 (strip url) w = (Inr p, w')"
      by (simp add: get_lora_from_url_def Let_def split: if_splits)
    from general_branch_again[OF this] assms False show ?thesis
      by (simp add: get_lora_from_url_def Let_def split: if_splits)
  qed
  then show ?thesis by simp
qed

theorem second_resolution_hits_cache_witness:
  "\<not> contains ''huggingface.co'' (strip ''https://example.com/a/model.safetensors'') \<and>
   fst (get_lora_from_url (\<lambda>u. 0) ''https://example.com/a/model.safetensors'' sample_world)
     = Inr ''/comfy/huggingface_cache/general/00000000000000000000000000000000.safetensors'' \<and>
   requests (snd (get_lora_from_url (\<lambda>u. 0) ''https://example.com/a/model.safetensors'' sample_world))
     = [''https://example.com/a/model.safetensors''] \<and>
   fst (get_lora_from_url (\<lambda>u. 0) ''https://example.com/a/model.safetensors''
      (snd (get_lora_from_url (\<lambda>u. 0) ''https://example.com/a/model.safetensors'' sample_world)))
     = Inr ''/comfy/huggingface_cache/general/00000000000000000000000000000000.safetensors'' \<and>
   requests (snd (get_lora_from_url (\<lambda>u. 0) ''https://example.com/a/model.safetensors''
      (snd (get_lora_from_url (\<lambda>u. 0) ''https://example.com/a/model.safetensors'' sample_world))))
     = [''https://example.com/a/model.safetensors'']"
proof -
  let ?u = "''https://example.com/a/model.safetensors''"
  let ?r = "get_lora_from_url (\<lambda>u. 0) ?u sample_world"
  have h1: "\<not> contains ''huggingface.co'' (strip ?u)" by code_simp
  have h2: "fst ?r = Inr ''/comfy/huggingface_cache/general/00000000000000000000000000000000.safetensors''"
    by code_simp
  have h3: "requests (snd ?r) = [?u]" by code_simp
  from h2 have h4: "?r = (Inr ''/comfy/huggingface_cache/general/00000000000000000000000000000000.safetensors'', snd ?r)"
    by (simp add: prod_eq_iff)
  from second_resolution_hits_cache[OF h1 h4] h1 h2 h3 show ?thesis by simp
qed

section \<open>The cache path does not depend on the API key\<close>

lemma find_or_create_cache_environ:
  "fst (find_or_create_cache (w\<lparr>environ := e\<rparr>)) = fst (find_or_create_cache w)"
  by (simp add: find_or_create_cache_def path_exists_def Let_def)

lemma fetch_cached_path:
  assumes "fetch_cached provider f u w = (Inr p, w')"
  shows "p = path_join (path_join (fst (find_or_create_cache w)) provider) f"
  using assms
  by (auto simp: fetch_cached_def Let_def split: prod.splits if_splits sum.splits)

lemma civitai_branch_path:
  assumes "civitai_branch md5 url w = (Inr p, w')"
  shows "\<exists>u f. civitai_fix_url url = Inr u \<and> f = get_filename_from_url md5 u ''safetensors'' \<and>
          p = path_join (path_join (fst (find_or_create_cache w)) ''civitai'') f"
  using assms
  by (auto simp: civitai_branch_def Let_def dest: fetch_cached_path split: sum.splits if_splits)


text \<open>
  Claim C5. Two runs on a marketplace reference in worlds that differ only in the value
  of \<open>CIVITAI_API_KEY\<close> (unset, blank or any string), when both return a path,
  return the same path: the file name is hashed before the token is appended.
\<close>

theorem cache_path_independent_of_api_key:
  assumes "\<not> contains ''huggingface.co'' (strip url)" and "contains ''civitai.com'' (strip url)"
    and "get_lora_from_url md5 url (w\<lparr>environ := (environ w)(''CIVITAI_API_KEY'' := k1)\<rparr>) = (Inr p1, w1)"
    and "get_lora_from_url md5 url (w\<lparr>environ := (environ w)(''CIVITAI_API_KEY'' := k2)\<rparr>) = (Inr p2, w2)"
  shows "p1 = p2"
proof -
  let ?u = "strip url"
  from assms(1,2,3) have b1: "civitai_branch md5 ?u (w\<lparr>environ := (environ w)(''CIVITAI_API_KEY'' := k1)\<rparr>) = (Inr p1, w1)"
    by (simp add: get_lora_from_url_def Let_def split: if_splits)
  from assms(1,2,4) have b2: "civitai_branch md5 ?u (w\<lparr>environ := (environ w)(''CIVITAI_API_KEY'' := k2)\<rparr>) = (Inr p2, w2)"
    by (simp add: get_lora_from_url_def Let_def split: if_splits)
  from civitai_branch_path[OF b1] civitai_branch_path[OF b2] show ?thesis
    by (auto simp: find_or_create_cache_environ)
qed

theorem cache_path_independent_of_api_key_witness:
  "\<not> contains ''huggingface.co''
      (strip ''https://civitai.com/api/download/models/123?type=Model&format=SafeTensor'') \<and>
   contains ''civitai.com''
      (strip ''https://civitai.com/api/download/models/123?type=Model&format=SafeTensor'') \<and>
   fst (get_lora_from_url (\<lambda>u. 0)
        ''https://civitai.com/api/download/models/123?type=Model&format=SafeTensor''
        (sample_world\<lparr>environ := (environ sample_world)(''CIVITAI_API_KEY'' := None)\<rparr>))
     = Inr ''/comfy/huggingface_cache/civitai/00000000000000000000000000000000.safetensors'' \<and>
   fst (get_lora_from_url (\<lambda>u. 0)
        ''https://civitai.com/api/download/models/123?type=Model&format=SafeTensor''
        (sample_world\<lparr>environ := (environ sample_world)(''CIVITAI_API_KEY'' := Some ''secret'')\<rparr>))
     = Inr ''/comfy/huggingface_cache/civitai/00000000000000000000000000000000.safetensors'' \<and>
   requests (snd (get_lora_from_url (\<lambda>u. 0)
        ''https://civitai.com/api/download/models/123?type=Model&format=SafeTensor''
        (sample_world\<lparr>environ := (environ sample_world)(''CIVITAI_API_KEY'' := Some ''secret'')\<rparr>)))
     = [''https://civitai.com/api/download/models/123?type=Model&format=SafeTensor&token=secret'']"
proof -
  let ?u = "''https://civitai.com/api/download/models/123?type=Model&format=SafeTensor''"
  let ?p = "''/comfy/huggingface_cache/civitai/00000000000000000000000000000000.safetensors''"
  let ?r1 = "get_lora_from_url (\<lambda>u. 0) ?u
        (sample_world\<lparr>environ := (environ sample_world)(''CIVITAI_API_KEY'' := None)\<rparr>)"
  let ?r2 = "get_lora_from_url (\<lambda>u. 0) ?u
        (sample_world\<lparr>environ := (environ sample_world)(''CIVITAI_API_KEY'' := Some ''secret'')\<rparr>)"
  have a: "\<not> contains ''huggingface.co'' (strip ?u)" by code_simp
  have b: "contains ''civitai.com'' (strip ?u)" by code_simp
  have c: "fst ?r1 = Inr ?p" by code_simp
  have d: "requests (snd ?r2)
     = [''https://civitai.com/api/download/models/123?type=Model&format=SafeTensor&token=secret'']"
    by code_simp
  have "\<not> isl (fst ?r2)" by code_simp
  then have e: "?r2 = (Inr (projr (fst ?r2)), snd ?r2)"
    by (cases "fst ?r2") (simp_all add: prod_eq_iff)
  from c have f: "?r1 = (Inr ?p, snd ?r1)" by (simp add: prod_eq_iff)
  from cache_path_independent_of_api_key[OF a b f e] have "fst ?r2 = Inr ?p"
    using e by (metis fst_conv)
  with a b c d show ?thesis by simp
qed
lemma contains_iff_sublist: "contains sub s \<longleftrightarrow> sublist sub s"
  by (induction s) (auto simp: sublist_Cons_right)

lemma contains_appendI: "contains sub (a @ sub @ b)"
  by (simp add: contains_iff_sublist)

lemma contains_skip:
  "x \<notin> set ds \<Longrightarrow> contains (x # xs) (ds @ s) = contains (x # xs) s"
  by (induction ds) auto

lemma split_from_skip:
  "x \<notin> set ds \<Longrightarrow> split_from (x # xs) acc (ds @ s) = split_from (x # xs) (rev ds @ acc) s"
  by (induction ds arbitrary: acc) auto

lemma split_from_hd: "\<exists>t. hd (split_from sep acc s) = rev acc @ t \<and> prefix t s"
proof (induction sep acc s rule: split_from.induct)
  case (1 sep acc)
  then show ?case by simp
next
  case (2 sep acc c cs)
  show ?case
  proof (cases "sep \<noteq> [] \<and> prefix sep (c # cs)")
    case True
    then show ?thesis by (auto intro: exI[of _ "[]"])
  next
    case False
    with 2(2) obtain t where "hd (split_from sep (c # acc) cs) = rev (c # acc) @ t" "prefix t cs"
      by blast
    with False show ?thesis by (auto intro: exI[of _ "c # t"])
  qed
qed

lemma split_from_first:
  assumes "sep \<noteq> []" and "\<not> contains sep (pre @ butlast sep)"
  shows "split_from sep acc (pre @ sep @ tail) = (rev acc @ pre) # split_from sep [] tail"
  using assms
proof (induction pre arbitrary: acc)
  case Nil
  then show ?case by (cases sep) auto
next
  case (Cons a pre)
  from Cons.prems have np: "\<not> prefix sep (a # pre @ butlast sep)"
    and nc: "\<not> contains sep (pre @ butlast sep)" by auto
  have "\<not> prefix sep (a # pre @ sep @ tail)"
  proof
    assume p: "prefix sep (a # pre @ sep @ tail)"
    have "length sep \<le> length (a # pre @ butlast sep)" using Cons.prems(1) by (cases sep) auto
    moreover have "a # pre @ sep @ tail = (a # pre @ butlast sep) @ (last sep # tail)"
      using Cons.prems(1) by simp
    ultimately have "prefix sep (a # pre @ butlast sep)"
      using p by (metis prefix_length_prefix prefixI prefix_order.refl append.assoc
          prefix_append)
    with np show False by simp
  qed
  with Cons.IH[OF Cons.prems(1) nc] show ?case by simp
qed

lemma contains_no_overlap:
  assumes sep: "sep = m @ [e]" and e: "e \<notin> set m" and nc: "\<not> contains sep pre"
  shows "\<not> contains sep (pre @ butlast sep)"
proof
  assume "contains sep (pre @ butlast sep)"
  then obtain a b where eq: "pre @ m = a @ sep @ b"
    by (auto simp: contains_iff_sublist sublist_def sep)
  show False
  proof (cases "length a + length sep \<le> length pre")
    case True
    from eq have "take (length a + length sep) (pre @ m) = a @ sep" by simp
    with True have "take (length a + length sep) pre = a @ sep" by simp
    then have "pre = a @ sep @ drop (length a + length sep) pre"
      by (metis append.assoc append_take_drop_id)
    then have "contains sep pre" by (metis contains_appendI)
    with nc show False by simp
  next
    case False
    let ?i = "length a + length m"
    have i: "?i \<ge> length pre" using False by (simp add: sep)
    have len: "length pre + length m = length a + length sep + length b"
      using arg_cong[OF eq, of length] by simp
    have il: "?i - length pre < length m" using len i by (simp add: sep)
    have "(pre @ m) ! ?i = (a @ sep @ b) ! ?i" using eq by simp
    also have "\<dots> = e" by (simp add: sep nth_append)
    finally have "(pre @ m) ! ?i = e" .
    moreover have "(pre @ m) ! ?i = m ! (?i - length pre)" using i by (simp add: nth_append)
    ultimately have "e \<in> set m" using il by (metis nth_mem)
    with e show False by simp
  qed
qed

lemma strip_id: "s \<noteq> [] \<Longrightarrow> \<not> isspace (hd s) \<Longrightarrow> \<not> isspace (last s) \<Longrightarrow> strip s = s"
proof -
  assume s: "s \<noteq> []" and h: "\<not> isspace (hd s)" and l: "\<not> isspace (last s)"
  from s h have 1: "dropWhile isspace s = s" by (cases s) auto
  from s l have 2: "dropWhile isspace (rev s) = rev s"
    by (cases s rule: rev_cases) auto
  show ?thesis by (simp add: strip_def 1 2)
qed

lemma index_1_Cons2: "index (x # y # ys) 1 = Inr y"
  by (simp add: index_def)

lemma index_0_Cons: "index (x # xs) 0 = Inr x"
  by (simp add: index_def)

lemma version_id_extracted:
  assumes first: "\<not> contains ''modelVersionId='' pre"
    and digits: "set vid \<subseteq> set ''0123456789''"
    and rest: "rest = [] \<or> prefix ''&'' rest"
  shows "civitai_fix_url (pre @ ''modelVersionId='' @ vid @ rest) =
           Inr (''https://civitai.com/api/download/models/'' @ vid @ ''?type=Model&format=SafeTensor'')"
proof -
  let ?sep = "''modelVersionId=''"
  let ?url = "pre @ ?sep @ vid @ rest"
  have c: "contains ''modelVersionId'' ?url"
    using contains_appendI[of "''modelVersionId''" pre "''='' @ vid @ rest"] by simp
  have no: "\<not> contains ?sep (pre @ butlast ?sep)"
    by (rule contains_no_overlap[where m = "''modelVersionId''" and e = "CHR ''=''"]) (simp_all add: first)
  have sp: "split ?url ?sep = pre # split_from ?sep [] (vid @ rest)"
    unfolding split_def using split_from_first[OF _ no, of "[]" "vid @ rest"] by simp
  have m: "CHR ''m'' \<notin> set vid" and a: "CHR ''&'' \<notin> set vid" using digits by auto
  obtain t where t: "hd (split_from ?sep (rev vid) rest) = vid @ t" "prefix t rest"
    using split_from_hd[of ?sep "rev vid" rest] by auto
  have sk: "split_from ?sep [] (vid @ rest) = split_from ?sep (rev vid) rest"
    using split_from_skip[OF m, of "''odelVersionId=''" "[]" rest] by simp
  obtain y ys where ne: "split_from ?sep [] (vid @ rest) = y # ys"
    using split_from_not_Nil by (cases "split_from ?sep [] (vid @ rest)") auto
  have y: "y = vid @ t" using t(1) sk ne by (metis list.sel(1))
  have v1: "index (split ?url ?sep) 1 = Inr (vid @ t)" by (simp only: sp ne y index_1_Cons2)
  have t': "t = [] \<or> prefix ''&'' t"
    using rest t(2) by (cases t; cases rest) auto
  have "split_from ''&'' [] (vid @ t) = split_from ''&'' (rev vid) t"
    using split_from_skip[OF a, of "[]" "[]" t] by simp
  moreover have "hd (split_from ''&'' (rev vid) t) = vid"
    using t' by (cases t) (auto)
  ultimately have "hd (split (vid @ t) ''&'') = vid" by (simp add: split_def)
  then have v2: "index (split (vid @ t) ''&'') 0 = Inr vid" by (simp add: index_0_split)
  show ?thesis unfolding civitai_fix_url_def
    by (simp only: c v1 v2 if_True sum.case)
qed
lemma canonical_url_is_marketplace:
  assumes digits: "set vid \<subseteq> set ''0123456789''"
  defines "c \<equiv> ''https://civitai.com/api/download/models/'' @ vid @ ''?type=Model&format=SafeTensor''"
  shows "strip c = c" and "startswith c ''http''" and "\<not> contains ''huggingface.co'' c"
    and "contains ''civitai.com'' c" and "civitai_fix_url c = Inr c" and "contains ''SafeTensor'' c"
proof -
  have h: "CHR ''h'' \<notin> set vid" and m: "CHR ''m'' \<notin> set vid" and s: "CHR ''S'' \<notin> set vid"
    using digits by auto
  show "strip c = c" by (rule strip_id) (simp_all add: c_def isspace_def)
  show "startswith c ''http''" by (simp add: c_def startswith_def)
  show "\<not> contains ''huggingface.co'' c" by (simp add: c_def contains_skip[OF h])
  show "contains ''civitai.com'' c" by (simp add: c_def)
  have "\<not> contains ''modelVersionId'' c" by (simp add: c_def contains_skip[OF m])
  then show "civitai_fix_url c = Inr c" by (simp add: civitai_fix_url_def)
  show "contains ''SafeTensor'' c" by (simp add: c_def contains_skip[OF s])
qed

lemma marketplace_dispatch:
  assumes "strip u = s" "startswith s ''http''" "\<not> contains ''huggingface.co'' s"
    "contains ''civitai.com'' s"
  shows "get_lora_from_url md5 u w = civitai_branch md5 s w"
proof -
  have "s \<noteq> []" using assms(2) by (auto simp: startswith_def)
  with assms show ?thesis by (simp add: get_lora_from_url_def Let_def)
qed

text \<open>
  Claim C4, amended. A marketplace URL whose first \<open>modelVersionId=\<close> is followed by a
  numeric version id, and then by the end of the URL or by \<open>&\<close>, is rewritten to the
  canonical download URL of that id before the \<open>SafeTensor\<close> check; resolving it is
  resolving the canonical URL: the same result, hence the same hashed cache path, and the
  same world. The id is the text between \<open>modelVersionId=\<close> and the next \<open>&\<close> (lines
  102-103), so anything else that follows the digits, a fragment for one, becomes part of
  the rewritten URL and of the hashed name.
\<close>

theorem model_version_id_rewrite:
  assumes shape: "strip url = pre @ ''modelVersionId='' @ vid @ rest"
    and first: "\<not> contains ''modelVersionId='' pre"
    and digits: "set vid \<subseteq> set ''0123456789''"
    and rest: "rest = [] \<or> prefix ''&'' rest"
    and http: "startswith (strip url) ''http''"
    and nohub: "\<not> contains ''huggingface.co'' (strip url)"
    and market: "contains ''civitai.com'' (strip url)"
  shows "civitai_fix_url (strip url) =
           Inr (''https://civitai.com/api/download/models/'' @ vid @ ''?type=Model&format=SafeTensor'') \<and>
         get_lora_from_url md5 url w =
           get_lora_from_url md5
             (''https://civitai.com/api/download/models/'' @ vid @ ''?type=Model&format=SafeTensor'') w"
proof -
  let ?c = "''https://civitai.com/api/download/models/'' @ vid @ ''?type=Model&format=SafeTensor''"
  note can = canonical_url_is_marketplace[OF digits]
  have fx: "civitai_fix_url (strip url) = Inr ?c"
    unfolding shape by (rule version_id_extracted[OF first digits rest])
  have l: "get_lora_from_url md5 url w = civitai_branch md5 (strip url) w"
    by (rule marketplace_dispatch[OF refl http nohub market])
  have r: "get_lora_from_url md5 ?c w = civitai_branch md5 ?c w"
    by (rule marketplace_dispatch[OF can(1,2,3,4)])
  have "civitai_branch md5 (strip url) w = civitai_branch md5 ?c w"
    unfolding civitai_branch_def by (simp only: fx can(5))
  with l r fx show ?thesis by simp
qed

theorem model_version_id_rewrite_witness:
  "strip ''https://civitai.com/models/1111?modelVersionId=2222''
     = ''https://civitai.com/models/1111?'' @ ''modelVersionId='' @ ''2222'' @ [] \<and>
   \<not> contains ''modelVersionId='' ''https://civitai.com/models/1111?'' \<and>
   set ''2222'' \<subseteq> set ''0123456789'' \<and>
   startswith (strip ''https://civitai.com/models/1111?modelVersionId=2222'') ''http'' \<and>
   \<not> contains ''huggingface.co'' (strip ''https://civitai.com/models/1111?modelVersionId=2222'') \<and>
   contains ''civitai.com'' (strip ''https://civitai.com/models/1111?modelVersionId=2222'') \<and>
   civitai_fix_url (strip ''https://civitai.com/models/1111?modelVersionId=2222'')
     = Inr ''https://civitai.com/api/download/models/2222?type=Model&format=SafeTensor'' \<and>
   get_lora_from_url (\<lambda>u. of_nat (length u)) ''https://civitai.com/models/1111?modelVersionId=2222'' sample_world
     = get_lora_from_url (\<lambda>u. of_nat (length u))
         ''https://civitai.com/api/download/models/2222?type=Model&format=SafeTensor'' sample_world \<and>
   fst (get_lora_from_url (\<lambda>u. of_nat (length u)) ''https://civitai.com/models/1111?modelVersionId=2222'' sample_world)
     = Inr ''/comfy/huggingface_cache/civitai/00000000000000000000000000000049.safetensors''"
proof -
  let ?u = "''https://civitai.com/models/1111?modelVersionId=2222''"
  have a: "strip ?u = ''https://civitai.com/models/1111?'' @ ''modelVersionId='' @ ''2222'' @ []"
    by code_simp
  have b: "\<not> contains ''modelVersionId='' ''https://civitai.com/models/1111?''" by code_simp
  have c: "set ''2222'' \<subseteq> set ''0123456789''" by simp
  have d: "startswith (strip ?u) ''http''" by code_simp
  have e: "\<not> contains ''huggingface.co'' (strip ?u)" by code_simp
  have f: "contains ''civitai.com'' (strip ?u)" by code_simp
  have g: "fst (get_lora_from_url (\<lambda>u. of_nat (length u)) ?u sample_world)
     = Inr ''/comfy/huggingface_cache/civitai/00000000000000000000000000000049.safetensors''"
    by code_simp
  from model_version_id_rewrite[OF a b c _ d e f, of "\<lambda>u. of_nat (length u)" sample_world]
    a b c d e f g show ?thesis by simp
qed

text \<open>
  The claim as stated fails when something other than \<open>&\<close> follows the id: with a
  fragment after it, the URL rewritten is not the canonical URL of the id, and where the
  hash tells the two URLs apart (here it is their length) the cache paths differ.
\<close>

theorem model_version_id_fragment_counterexample:
  "civitai_fix_url (strip ''https://civitai.com/models/1111?modelVersionId=2222#top'')
     = Inr ''https://civitai.com/api/download/models/2222#top?type=Model&format=SafeTensor'' \<and>
   fst (get_lora_from_url (\<lambda>u. of_nat (length u))
          ''https://civitai.com/models/1111?modelVersionId=2222#top'' sample_world)
     = Inr ''/comfy/huggingface_cache/civitai/0000000000000000000000000000004d.safetensors'' \<and>
   fst (get_lora_from_url (\<lambda>u. of_nat (length u))
          ''https://civitai.com/api/download/models/2222?type=Model&format=SafeTensor'' sample_world)
     = Inr ''/comfy/huggingface_cache/civitai/00000000000000000000000000000049.safetensors''"
  by code_simp

section \<open>Hub references\<close>

text \<open>
  Claim C1 at the reference
  \<open>https://huggingface.co/owner/repo/resolve/main/blob/file.safetensors\<close>, whose one
  intermediate segment is \<open>blob\<close>: the hub client is asked for the subfolder
  \<open>resolve\<close>, because the rewrite of \<open>/blob/\<close> (line 66) replaces every occurrence
  and not only the structural segment after the repository name.
\<close>

theorem hub_subfolder_named_blob:
  "hub_calls (snd (get_lora_from_url (\<lambda>u. 0)
       ''https://huggingface.co/owner/repo/resolve/main/blob/file.safetensors'' sample_world))
     = [\<lparr>repo_id = ''owner/repo'', filename = ''file.safetensors'',
         subfolder = Some ''resolve'', cache_dir = ''/comfy/huggingface_cache''\<rparr>]"
  by code_simp

section \<open>The one-entry cache of the loader nodes\<close>

lemma cached_or_load_step:
  assumes "consistent self"
  shows "one_entry_cache_step comfy model clip sm sc self p w1
           (cached_or_load comfy self model clip p sm sc w1)"
proof (cases "loaded_lora self")
  case None
  with assms have "loaded_lora_path self = None" by (simp add: consistent_def)
  with None have "self = \<lparr>loaded_lora = None, loaded_lora_path = None\<rparr>" by simp
  then show ?thesis
    by (simp add: one_entry_cache_step_def cached_or_load_def load_torch_file_def
        split: sum.splits)
next
  case (Some held)
  then show ?thesis
    by (simp add: one_entry_cache_step_def cached_or_load_def load_torch_file_def
        split: sum.splits)
qed

lemma cached_or_load_consistent:
  assumes "consistent self"
  shows "consistent (fst (snd (cached_or_load comfy self model clip p sm sc w1)))"
  using assms
  by (auto simp: consistent_def cached_or_load_def load_torch_file_def
      split: option.splits sum.splits)

lemma new_node_consistent: "consistent new_node"
  by (simp add: consistent_def new_node_def)

lemma load_lora_skipped:
  "LoraLoaderFromURL_load_lora comfy md5 self model clip url 0 0 w = (Inr (model, clip), self, w)"
  "HFHubLoraLoader_load_lora comfy self model clip repo sub fname 0 0 w = (Inr (model, clip), self, w)"
  by (simp_all add: LoraLoaderFromURL_load_lora_def HFHubLoraLoader_load_lora_def)

lemma load_lora_consistent:
  assumes "consistent self"
  shows "consistent (fst (snd (LoraLoaderFromURL_load_lora comfy md5 self model clip url sm sc w)))"
    and "consistent (fst (snd (HFHubLoraLoader_load_lora comfy self model clip repo sub fname sm sc w)))"
  using assms cached_or_load_consistent[OF assms]
  by (auto simp: LoraLoaderFromURL_load_lora_def HFHubLoraLoader_load_lora_def
      split: prod.splits sum.splits)

text \<open>
  Claim C9. For both loader classes, from a consistent instance and with a strength
  that is not zero, an invocation that resolves a path behaves as the one-entry cache:
  a different path drops the held payload and puts the newly read one in its place,
  the same path reuses the held payload without a read, and afterwards the instance
  holds a payload only for the path just resolved.
\<close>

theorem lora_cache_eviction:
  assumes "consistent self" and "sm \<noteq> 0 \<or> sc \<noteq> 0"
  shows "(\<forall>p w1. get_lora_from_url md5 url w = (Inr p, w1) \<longrightarrow>
            one_entry_cache_step comfy model clip sm sc self p w1
              (LoraLoaderFromURL_load_lora comfy md5 self model clip url sm sc w)) \<and>
         (\<forall>p w1. hub_resolve repo sub fname w = (Inr p, w1) \<longrightarrow>
            one_entry_cache_step comfy model clip sm sc self p w1
              (HFHubLoraLoader_load_lora comfy self model clip repo sub fname sm sc w))"
  using assms(2) cached_or_load_step[OF assms(1)]
  by (auto simp: LoraLoaderFromURL_load_lora_def HFHubLoraLoader_load_lora_def)

theorem lora_cache_eviction_witness:
  "consistent \<lparr>loaded_lora = Some ''old'',
      loaded_lora_path = Some ''/comfy/huggingface_cache/other.safetensors''\<rparr> \<and>
   consistent \<lparr>loaded_lora = Some ''old'',
      loaded_lora_path = Some ''/comfy/huggingface_cache/file.safetensors''\<rparr> \<and>
   fst (hub_resolve ''owner/repo'' None ''file.safetensors'' sample_world)
     = Inr ''/comfy/huggingface_cache/file.safetensors'' \<and>
   fst (snd (HFHubLoraLoader_load_lora sample_comfy
        \<lparr>loaded_lora = Some ''old'',
         loaded_lora_path = Some ''/comfy/huggingface_cache/file.safetensors''\<rparr>
        ''model'' ''clip'' ''owner/repo'' None ''file.safetensors'' 1 1 sample_world))
     = \<lparr>loaded_lora = Some ''old'',
        loaded_lora_path = Some ''/comfy/huggingface_cache/file.safetensors''\<rparr> \<and>
   torch_loads (snd (snd (HFHubLoraLoader_load_lora sample_comfy
        \<lparr>loaded_lora = Some ''old'',
         loaded_lora_path = Some ''/comfy/huggingface_cache/file.safetensors''\<rparr>
        ''model'' ''clip'' ''owner/repo'' None ''file.safetensors'' 1 1 sample_world))) = [] \<and>
   fst (snd (HFHubLoraLoader_load_lora sample_comfy
        \<lparr>loaded_lora = Some ''old'',
         loaded_lora_path = Some ''/comfy/huggingface_cache/other.safetensors''\<rparr>
        ''model'' ''clip'' ''owner/repo'' None ''file.safetensors'' 1 1 sample_world))
     = \<lparr>loaded_lora = None, loaded_lora_path = None\<rparr> \<and>
   torch_loads (snd (snd (HFHubLoraLoader_load_lora sample_comfy
        \<lparr>loaded_lora = Some ''old'',
         loaded_lora_path = Some ''/comfy/huggingface_cache/other.safetensors''\<rparr>
        ''model'' ''clip'' ''owner/repo'' None ''file.safetensors'' 1 1 sample_world)))
     = [''/comfy/huggingface_cache/file.safetensors'']"
proof -
  let ?p = "''/comfy/huggingface_cache/file.safetensors''"
  let ?hit = "\<lparr>loaded_lora = Some ''old'', loaded_lora_path = Some ?p\<rparr>"
  let ?miss = "\<lparr>loaded_lora = Some ''old'',
      loaded_lora_path = Some ''/comfy/huggingface_cache/other.safetensors''\<rparr>"
  let ?res = "hub_resolve ''owner/repo'' None ''file.safetensors'' sample_world"
  have c1: "consistent ?miss" and c2: "consistent ?hit" by (simp_all add: consistent_def)
  have s: "(1::real) \<noteq> 0 \<or> (1::real) \<noteq> 0" by simp
  have r: "fst ?res = Inr ?p" by code_simp
  then have res: "?res = (Inr ?p, snd ?res)" by (simp add: prod_eq_iff)
  have tl: "torch_loads (snd ?res) = []" by code_simp
  have rd: "read_tensors sample_comfy (snd ?res) ?p = Inl (ExternalError ''no such file'')"
    by code_simp
  from lora_cache_eviction[OF c2 s, where comfy = sample_comfy and model = "''model''"
      and clip = "''clip''" and repo = "''owner/repo''" and sub = None
      and fname = "''file.safetensors''" and w = sample_world] res
  have hit: "one_entry_cache_step sample_comfy ''model'' ''clip'' 1 1 ?hit ?p (snd ?res)
      (HFHubLoraLoader_load_lora sample_comfy ?hit ''model'' ''clip'' ''owner/repo'' None
         ''file.safetensors'' 1 1 sample_world)" by blast
  from lora_cache_eviction[OF c1 s, where comfy = sample_comfy and model = "''model''"
      and clip = "''clip''" and repo = "''owner/repo''" and sub = None
      and fname = "''file.safetensors''" and w = sample_world] res
  have miss: "one_entry_cache_step sample_comfy ''model'' ''clip'' 1 1 ?miss ?p (snd ?res)
      (HFHubLoraLoader_load_lora sample_comfy ?miss ''model'' ''clip'' ''owner/repo'' None
         ''file.safetensors'' 1 1 sample_world)" by blast
  from hit have h: "fst (snd (HFHubLoraLoader_load_lora sample_comfy ?hit ''model'' ''clip''
        ''owner/repo'' None ''file.safetensors'' 1 1 sample_world)) = ?hit"
    "snd (snd (HFHubLoraLoader_load_lora sample_comfy ?hit ''model'' ''clip''
        ''owner/repo'' None ''file.safetensors'' 1 1 sample_world)) = snd ?res"
    by (auto simp: one_entry_cache_step_def split: prod.splits)
  from miss rd have m: "fst (snd (HFHubLoraLoader_load_lora sample_comfy ?miss ''model'' ''clip''
        ''owner/repo'' None ''file.safetensors'' 1 1 sample_world))
          = \<lparr>loaded_lora = None, loaded_lora_path = None\<rparr>"
    "snd (snd (HFHubLoraLoader_load_lora sample_comfy ?miss ''model'' ''clip''
        ''owner/repo'' None ''file.safetensors'' 1 1 sample_world))
          = (snd ?res)\<lparr>torch_loads := torch_loads (snd ?res) @ [?p]\<rparr>"
    by (auto simp: one_entry_cache_step_def split: prod.splits)
  show ?thesis using c1 c2 r h m tl by simp
qed

section \<open>Padding\<close>

lemma run_unchanged:
  "target_width \<le> int (width img) \<Longrightarrow> target_height \<le> int (height img) \<Longrightarrow>
   run img target_width target_height method = Inr img"
  by (simp add: run_def Let_def)

lemma run_pads:
  assumes "int (width img) \<le> target_width" "int (height img) \<le> target_height"
    and "int (width img) < target_width \<or> int (height img) < target_height"
  defines "pw \<equiv> nat (target_width - int (width img))"
    and "ph \<equiv> nat (target_height - int (height img))"
  shows "run img target_width target_height method =
     (if method = ''constant'' then pad_constant img (pw div 2) (pw - pw div 2) (ph div 2) (ph - ph div 2)
      else if method = ''replicate'' then pad_replicate img (pw div 2) (pw - pw div 2) (ph div 2) (ph - ph div 2)
      else pad_reflect img (pw div 2) (pw - pw div 2) (ph div 2) (ph - ph div 2))"
proof -
  have 1: "nat ((target_width - int (width img)) div 2) = pw div 2"
    using assms(1) by (simp add: pw_def nat_div_distrib)
  have 2: "nat ((target_height - int (height img)) div 2) = ph div 2"
    using assms(2) by (simp add: ph_def nat_div_distrib)
  have 3: "nat (target_width - int (width img) - (target_width - int (width img)) div 2) = pw - pw div 2"
    using assms(1) 1 by (simp add: pw_def nat_diff_distrib')
  have 4: "nat (target_height - int (height img) - (target_height - int (height img)) div 2) = ph - ph div 2"
    using assms(2) 2 by (simp add: ph_def nat_diff_distrib')
  show ?thesis
  proof (cases "int (width img) < target_width")
    case True
    then show ?thesis using assms(2) 1 2 3 4
      by (cases "int (height img) < target_height") (simp_all add: run_def Let_def pw_def ph_def)
  next
    case False
    with assms(3) have "int (height img) < target_height" by simp
    with False assms(1) show ?thesis using 1 2 3 4
      by (simp add: run_def Let_def pw_def ph_def)
  qed
qed

lemma padded_ok:
  fixes img out :: "'a::zero image"
  assumes shape: "height out = height img + pt + pb" "width out = width img + pl + pr"
      "batch out = batch img" "channels out = channels img"
    and sizes: "int (width img + pl + pr) = target_width" "int (height img + pt + pb) = target_height"
    and copied: "\<And>b y x c. y < height img \<Longrightarrow> x < width img \<Longrightarrow>
        px out b (pt + y) (pl + x) c = px img b y x c"
    and fill: "fill_ok method img out pt pl"
    and res: "res = Inr out"
  shows "\<exists>out. res = Inr out \<and>
          int (width out) = target_width \<and> int (height out) = target_height \<and>
          batch out = batch img \<and> channels out = channels img \<and>
          (\<forall>b y x c. y < height img \<longrightarrow> x < width img \<longrightarrow>
             px out b (pt + y) (pl + x) c = px img b y x c) \<and>
          fill_ok method img out pt pl"
  using assms by (intro exI[of _ out]) simp

lemma pad_constant_ok:
  fixes img :: "'a::zero image"
  assumes "int (width img + pl + pr) = target_width" "int (height img + pt + pb) = target_height"
  shows "\<exists>out. pad_constant img pl pr pt pb = Inr out \<and>
          int (width out) = target_width \<and> int (height out) = target_height \<and>
          batch out = batch img \<and> channels out = channels img \<and>
          (\<forall>b y x c. y < height img \<longrightarrow> x < width img \<longrightarrow>
             px out b (pt + y) (pl + x) c = px img b y x c) \<and>
          fill_ok ''constant'' img out pt pl"
proof (rule padded_ok[OF _ _ _ _ assms])
  let ?out = "(pad_shape img pl pr pt pb)
            \<lparr>px := (\<lambda>b y x c.
                if inside (height img) pt y \<and> inside (width img) pl x
                then px img b (y - pt) (x - pl) c else 0)\<rparr>"
  show "pad_constant img pl pr pt pb = Inr ?out" by (simp only: pad_constant_def)
  show "height ?out = height img + pt + pb" by (simp add: pad_shape_def)
  show "width ?out = width img + pl + pr" by (simp add: pad_shape_def)
  show "batch ?out = batch img" by (simp add: pad_shape_def)
  show "channels ?out = channels img" by (simp add: pad_shape_def)
  show "px ?out b (pt + y) (pl + x) c = px img b y x c" if "y < height img" "x < width img" for b y x c
    using that by (simp add: inside_def)
  show "fill_ok ''constant'' img ?out pt pl" by (simp add: fill_ok_def)
qed

lemma pad_replicate_ok:
  fixes img :: "'a::zero image"
  assumes "int (width img + pl + pr) = target_width" "int (height img + pt + pb) = target_height"
    and ne: "0 < batch img" "0 < height img" "0 < width img" "0 < channels img"
  shows "\<exists>out. pad_replicate img pl pr pt pb = Inr out \<and>
          int (width out) = target_width \<and> int (height out) = target_height \<and>
          batch out = batch img \<and> channels out = channels img \<and>
          (\<forall>b y x c. y < height img \<longrightarrow> x < width img \<longrightarrow>
             px out b (pt + y) (pl + x) c = px img b y x c) \<and>
          fill_ok ''replicate'' img out pt pl"
proof (rule padded_ok[OF _ _ _ _ assms(1,2)])
  let ?out = "(pad_shape img pl pr pt pb)
            \<lparr>px := (\<lambda>b y x c.
                px img b (replicate_index (height img) pt y)
                         (replicate_index (width img) pl x) c)\<rparr>"
  show "pad_replicate img pl pr pt pb = Inr ?out" using ne by (simp add: pad_replicate_def)
  show "height ?out = height img + pt + pb" by (simp add: pad_shape_def)
  show "width ?out = width img + pl + pr" by (simp add: pad_shape_def)
  show "batch ?out = batch img" by (simp add: pad_shape_def)
  show "channels ?out = channels img" by (simp add: pad_shape_def)
  show "px ?out b (pt + y) (pl + x) c = px img b y x c" if "y < height img" "x < width img" for b y x c
  proof -
    have "replicate_index (height img) pt (pt + y) = y" "replicate_index (width img) pl (pl + x) = x"
      using that by (simp_all add: replicate_index_def)
    then show ?thesis by simp
  qed
  show "fill_ok ''replicate'' img ?out pt pl" by (simp add: fill_ok_def)
qed

lemma pad_reflect_ok:
  fixes img :: "'a::zero image"
  assumes "int (width img + pl + pr) = target_width" "int (height img + pt + pb) = target_height"
    and ne: "0 < batch img" "0 < height img" "0 < width img" "0 < channels img"
    and small: "pl < width img" "pr < width img" "pt < height img" "pb < height img"
    and m: "method \<noteq> ''constant''" "method \<noteq> ''replicate''"
  shows "\<exists>out. pad_reflect img pl pr pt pb = Inr out \<and>
          int (width out) = target_width \<and> int (height out) = target_height \<and>
          batch out = batch img \<and> channels out = channels img \<and>
          (\<forall>b y x c. y < height img \<longrightarrow> x < width img \<longrightarrow>
             px out b (pt + y) (pl + x) c = px img b y x c) \<and>
          fill_ok method img out pt pl"
proof (rule padded_ok[OF _ _ _ _ assms(1,2)])
  let ?out = "(pad_shape img pl pr pt pb)
            \<lparr>px := (\<lambda>b y x c.
                px img b (reflect_index (height img) pt y)
                         (reflect_index (width img) pl x) c)\<rparr>"
  show "pad_reflect img pl pr pt pb = Inr ?out" using ne small by (simp add: pad_reflect_def)
  show "height ?out = height img + pt + pb" by (simp add: pad_shape_def)
  show "width ?out = width img + pl + pr" by (simp add: pad_shape_def)
  show "batch ?out = batch img" by (simp add: pad_shape_def)
  show "channels ?out = channels img" by (simp add: pad_shape_def)
  show "px ?out b (pt + y) (pl + x) c = px img b y x c" if "y < height img" "x < width img" for b y x c
  proof -
    have "reflect_index (height img) pt (pt + y) = y" "reflect_index (width img) pl (pl + x) = x"
      using that by (simp_all add: reflect_index_def)
    then show ?thesis by simp
  qed
  show "fill_ok method img ?out pt pl" using m by (simp add: fill_ok_def)
qed

lemma run_reflect_too_large:
  fixes img :: "'a::zero image"
  assumes a1: "int (width img) \<le> target_width" and a2: "int (height img) \<le> target_height"
    and a3: "int (width img) < target_width \<or> int (height img) < target_height"
    and ne: "0 < batch img" "0 < height img" "0 < width img" "0 < channels img"
    and m: "method \<noteq> ''constant''" "method \<noteq> ''replicate''"
    and large: "width img \<le> nat (target_width - int (width img)) - nat (target_width - int (width img)) div 2 \<or>
                height img \<le> nat (target_height - int (height img)) - nat (target_height - int (height img)) div 2"
  shows "run img target_width target_height method = Inl PadTooLarge"
proof -
  have "\<not> (a < width img \<and> nat (target_width - int (width img)) - nat (target_width - int (width img)) div 2 < width img \<and>
       b < height img \<and> nat (target_height - int (height img)) - nat (target_height - int (height img)) div 2 < height img)"
    for a b using large by linarith
  then show ?thesis
    unfolding run_pads[OF a1 a2 a3] using m ne by (simp add: pad_reflect_def)
qed

lemma run_empty_dimension:
  fixes img :: "'a::zero image"
  assumes a1: "int (width img) \<le> target_width" and a2: "int (height img) \<le> target_height"
    and a3: "int (width img) < target_width \<or> int (height img) < target_height"
    and e: "batch img = 0 \<or> height img = 0 \<or> width img = 0 \<or> channels img = 0"
    and m: "method \<noteq> ''constant''"
  shows "run img target_width target_height method = Inl EmptyDimension"
  unfolding run_pads[OF a1 a2 a3] using m e by (simp add: pad_reflect_def pad_replicate_def)

text \<open>
  What \<open>run\<close> returns, case by case. A target no larger than the source in both
  dimensions returns the source image itself. A target at least as large as the source,
  and larger in one dimension, gives an image of exactly the requested width and height,
  with the same batch and channel sizes, the source copied at offset (top, left) = (half
  the height pad, half the width pad) rounded down, the trailing pad being equal or one
  larger, and every other element filled per the policy: for the constant policy always,
  for the replicate policy on an image with no empty dimension, and for the reflect
  policy (every other method name) on such an image when the trailing pad is smaller
  than the source dimension it extends. When it is not smaller, the reflect policy
  fails.
\<close>

lemma padding_result:
  fixes img :: "'a::zero image" and target_width target_height :: int
  defines "pw \<equiv> nat (target_width - int (width img))"
    and "ph \<equiv> nat (target_height - int (height img))"
  shows
   "(target_width \<le> int (width img) \<and> target_height \<le> int (height img) \<longrightarrow>
       run img target_width target_height method = Inr img) \<and>
    (int (width img) \<le> target_width \<and> int (height img) \<le> target_height \<and>
     (int (width img) < target_width \<or> int (height img) < target_height) \<and>
     (method = ''constant'' \<or>
      0 < batch img \<and> 0 < height img \<and> 0 < width img \<and> 0 < channels img \<and>
      (method = ''replicate'' \<or> (pw - pw div 2 < width img \<and> ph - ph div 2 < height img))) \<longrightarrow>
       (\<exists>out. run img target_width target_height method = Inr out \<and>
          int (width out) = target_width \<and> int (height out) = target_height \<and>
          batch out = batch img \<and> channels out = channels img \<and>
          (\<forall>b y x c. y < height img \<longrightarrow> x < width img \<longrightarrow>
             px out b (ph div 2 + y) (pw div 2 + x) c = px img b y x c) \<and>
          fill_ok method img out (ph div 2) (pw div 2)) \<and>
       pw div 2 \<le> pw - pw div 2 \<and> pw - pw div 2 \<le> pw div 2 + 1 \<and>
       ph div 2 \<le> ph - ph div 2 \<and> ph - ph div 2 \<le> ph div 2 + 1) \<and>
    (int (width img) \<le> target_width \<and> int (height img) \<le> target_height \<and>
     (int (width img) < target_width \<or> int (height img) < target_height) \<and>
     0 < batch img \<and> 0 < height img \<and> 0 < width img \<and> 0 < channels img \<and>
     method \<noteq> ''constant'' \<and> method \<noteq> ''replicate'' \<and>
     (width img \<le> pw - pw div 2 \<or> height img \<le> ph - ph div 2) \<longrightarrow>
       run img target_width target_height method = Inl PadTooLarge)"
proof (intro conjI impI)
  assume "target_width \<le> int (width img) \<and> target_height \<le> int (height img)"
  then show "run img target_width target_height method = Inr img"
    by (simp add: run_unchanged)
next
  show "pw div 2 \<le> pw - pw div 2" by linarith
  show "pw - pw div 2 \<le> pw div 2 + 1" by linarith
  show "ph div 2 \<le> ph - ph div 2" by linarith
  show "ph - ph div 2 \<le> ph div 2 + 1" by linarith
next
  assume "int (width img) \<le> target_width \<and> int (height img) \<le> target_height \<and>
     (int (width img) < target_width \<or> int (height img) < target_height) \<and>
     0 < batch img \<and> 0 < height img \<and> 0 < width img \<and> 0 < channels img \<and>
     method \<noteq> ''constant'' \<and> method \<noteq> ''replicate'' \<and>
     (width img \<le> pw - pw div 2 \<or> height img \<le> ph - ph div 2)"
  then show "run img target_width target_height method = Inl PadTooLarge"
    unfolding pw_def ph_def by (intro run_reflect_too_large) blast+
next
  assume a: "int (width img) \<le> target_width \<and> int (height img) \<le> target_height \<and>
     (int (width img) < target_width \<or> int (height img) < target_height) \<and>
     (method = ''constant'' \<or>
      0 < batch img \<and> 0 < height img \<and> 0 < width img \<and> 0 < channels img \<and>
      (method = ''replicate'' \<or> (pw - pw div 2 < width img \<and> ph - ph div 2 < height img)))"
  then have a1: "int (width img) \<le> target_width" and a2: "int (height img) \<le> target_height"
    and a3: "int (width img) < target_width \<or> int (height img) < target_height"
    and a4: "method = ''constant'' \<or>
      0 < batch img \<and> 0 < height img \<and> 0 < width img \<and> 0 < channels img \<and>
      (method = ''replicate'' \<or> (pw - pw div 2 < width img \<and> ph - ph div 2 < height img))"
    by blast+
  have r: "run img target_width target_height method =
     (if method = ''constant'' then pad_constant img (pw div 2) (pw - pw div 2) (ph div 2) (ph - ph div 2)
      else if method = ''replicate'' then pad_replicate img (pw div 2) (pw - pw div 2) (ph div 2) (ph - ph div 2)
      else pad_reflect img (pw div 2) (pw - pw div 2) (ph div 2) (ph - ph div 2))"
    unfolding pw_def ph_def by (rule run_pads[OF a1 a2 a3])
  have wsum: "int (width img + pw div 2 + (pw - pw div 2)) = target_width"
    using a1 unfolding pw_def by linarith
  have hsum: "int (height img + ph div 2 + (ph - ph div 2)) = target_height"
    using a2 unfolding ph_def by linarith
  consider (c) "method = ''constant''" | (r) "method \<noteq> ''constant''" "method = ''replicate''"
    | (m) "method \<noteq> ''constant''" "method \<noteq> ''replicate''" by blast
  then show "\<exists>out. run img target_width target_height method = Inr out \<and>
          int (width out) = target_width \<and> int (height out) = target_height \<and>
          batch out = batch img \<and> channels out = channels img \<and>
          (\<forall>b y x c. y < height img \<longrightarrow> x < width img \<longrightarrow>
             px out b (ph div 2 + y) (pw div 2 + x) c = px img b y x c) \<and>
          fill_ok method img out (ph div 2) (pw div 2)"
  proof cases
    case c
    have "run img target_width target_height method
        = pad_constant img (pw div 2) (pw - pw div 2) (ph div 2) (ph - ph div 2)"
      using r c by simp
    with pad_constant_ok[OF wsum hsum] c show ?thesis by (simp only:)
  next
    case r
    with a4 have ne: "0 < batch img" "0 < height img" "0 < width img" "0 < channels img"
      by blast+
    have "run img target_width target_height method
        = pad_replicate img (pw div 2) (pw - pw div 2) (ph div 2) (ph - ph div 2)"
      using \<open>run img target_width target_height method = _\<close> r by simp
    with pad_replicate_ok[OF wsum hsum ne] r(2) show ?thesis by (simp only:)
  next
    case m
    with a4 have ne: "0 < batch img" "0 < height img" "0 < width img" "0 < channels img"
      and small: "pw - pw div 2 < width img" "ph - ph div 2 < height img" by blast+
    have small': "pw div 2 < width img" "ph div 2 < height img" using small by linarith+
    have "run img target_width target_height method
        = pad_reflect img (pw div 2) (pw - pw div 2) (ph div 2) (ph - ph div 2)"
      using \<open>run img target_width target_height method = _\<close> m by simp
    with pad_reflect_ok[OF wsum hsum ne small'(1) small(1) small'(2) small(2) m] show ?thesis
      by (simp only:)
  qed
qed

lemma padding_result_sample:
  "run sample_image 2 1 ''constant'' = Inr sample_image \<and>
   (\<exists>out. run sample_image 3 3 ''reflect'' = Inr out \<and>
      int (width out) = 3 \<and> int (height out) = 3 \<and>
      px out 0 1 1 0 = px sample_image 0 1 1 0 \<and> px out 0 2 2 0 = px sample_image 0 0 0 0) \<and>
   run sample_image 5 2 ''reflect'' = Inl PadTooLarge"
proof -
  have dims: "width sample_image = 2" "height sample_image = 2" "channels sample_image = 3"
    "batch sample_image = 1"
    by (simp_all add: sample_image_def)
  have a: "run sample_image 2 1 ''constant'' = Inr sample_image"
    using padding_result[of 2 sample_image 1 "''constant''"] dims by simp
  have pads: "nat (3 - int (width sample_image)) = 1" "nat (3 - int (height sample_image)) = 1"
    using dims by simp_all
  from padding_result[of 3 sample_image 3 "''reflect''"]
  obtain out where out: "run sample_image 3 3 ''reflect'' = Inr out" "int (width out) = 3"
    "int (height out) = 3"
    "\<forall>b y x c. y < height sample_image \<longrightarrow> x < width sample_image \<longrightarrow>
       px out b (0 + y) (0 + x) c = px sample_image b y x c"
    "fill_ok ''reflect'' sample_image out 0 0"
    unfolding pads using dims by auto
  from out(4) dims have c: "px out 0 1 1 0 = px sample_image 0 1 1 0" by simp
  from out(5) out(2,3) have "px out 0 2 2 0
      = px sample_image 0 (reflect_index (height sample_image) 0 2)
          (reflect_index (width sample_image) 0 2) 0"
    by (simp add: fill_ok_def)
  then have d: "px out 0 2 2 0 = px sample_image 0 0 0 0"
    by (simp add: dims reflect_index_def)
  have e: "run sample_image 5 2 ''reflect'' = Inl PadTooLarge"
    using padding_result[of 5 sample_image 2 "''reflect''"] dims by simp
  from a out(1,2,3) c d e show ?thesis by auto
qed

text \<open>
  Claim C6. The claim promises, for every image and every larger target, an image of the
  requested size filled per the chosen policy. With the reflect policy the node passes
  its pads to the tensor runtime unguarded (lines 715-719), and a reflection needs each
  pad smaller than the dimension it extends: a 512 by 512 image padded to 2048 by 2048,
  768 pixels on each side, makes the call fail, where the constant and the replicate
  policy return the 2048 by 2048 image on the same input.
\<close>

theorem padding_reflect_too_large:
  "run \<lparr>batch = 1, height = 512, width = 512, channels = 3, px = (\<lambda>b y x c. (0::real))\<rparr>
       2048 2048 ''reflect'' = Inl PadTooLarge \<and>
   (\<exists>out. run \<lparr>batch = 1, height = 512, width = 512, channels = 3, px = (\<lambda>b y x c. (0::real))\<rparr>
       2048 2048 ''replicate'' = Inr out \<and> width out = 2048 \<and> height out = 2048) \<and>
   (\<exists>out. run \<lparr>batch = 1, height = 512, width = 512, channels = 3, px = (\<lambda>b y x c. (0::real))\<rparr>
       2048 2048 ''constant'' = Inr out \<and> width out = 2048 \<and> height out = 2048)"
  by (simp add: run_def pad_reflect_def pad_replicate_def pad_constant_def pad_shape_def)

section \<open>Rounding to a double\<close>

lemma round_even_cases:
  fixes y :: real
  defines "f \<equiv> \<lfloor>y\<rfloor>"
  shows "(y - of_int f < 1 / 2 \<and> round_even y = f) \<or>
         (1 / 2 < y - of_int f \<and> round_even y = f + 1) \<or>
         (y - of_int f = 1 / 2 \<and> even f \<and> round_even y = f) \<or>
         (y - of_int f = 1 / 2 \<and> odd f \<and> round_even y = f + 1)"
  unfolding round_even_def Let_def f_def by auto

lemma round_even_error: "\<bar>of_int (round_even y) - y\<bar> \<le> 1 / 2"
proof -
  have "of_int \<lfloor>y\<rfloor> \<le> y" "y < of_int \<lfloor>y\<rfloor> + 1" by linarith+
  with round_even_cases[of y] show ?thesis by auto
qed

lemma round_even_of_int: "round_even (of_int n) = n"
  by (simp add: round_even_def)

lemma round_even_bounds: "\<lfloor>y\<rfloor> \<le> round_even y" "round_even y \<le> \<lfloor>y\<rfloor> + 1"
  using round_even_cases[of y] by auto

lemma round_even_mono:
  assumes "x \<le> y"
  shows "round_even x \<le> round_even y"
proof -
  have f: "\<lfloor>x\<rfloor> \<le> \<lfloor>y\<rfloor>" using assms by (rule floor_mono)
  show ?thesis
  proof (cases "\<lfloor>x\<rfloor> = \<lfloor>y\<rfloor>")
    case True
    then have "x - of_int \<lfloor>x\<rfloor> \<le> y - of_int \<lfloor>y\<rfloor>" using assms by simp
    with True round_even_cases[of x] round_even_cases[of y] show ?thesis by auto
  next
    case False
    with f have "\<lfloor>x\<rfloor> + 1 \<le> \<lfloor>y\<rfloor>" by simp
    with round_even_bounds(2)[of x] round_even_bounds(1)[of y] show ?thesis by linarith
  qed
qed

lemma round_even_minus: "round_even (- y) = - round_even y"
proof (cases "y = of_int \<lfloor>y\<rfloor>")
  case True
  then obtain n where "y = of_int n" ..
  then have "round_even (- y) = round_even (of_int (- n))" by simp
  also have "\<dots> = - n" by (rule round_even_of_int)
  finally show ?thesis using \<open>y = of_int n\<close> by (simp add: round_even_of_int)
next
  case False
  then have fl: "\<lfloor>- y\<rfloor> = - \<lfloor>y\<rfloor> - 1" by (simp add: floor_minus ceiling_altdef)
  then have r: "- y - of_int \<lfloor>- y\<rfloor> = 1 - (y - of_int \<lfloor>y\<rfloor>)" by simp
  have ev: "even \<lfloor>- y\<rfloor> \<longleftrightarrow> odd \<lfloor>y\<rfloor>" unfolding fl by simp
  from round_even_cases[of y] round_even_cases[of "- y"] show ?thesis
    unfolding r ev unfolding fl by auto
qed

lemma floor_log2_bounds:
  assumes "x \<noteq> 0"
  shows "2 powi \<lfloor>log 2 \<bar>x\<bar>\<rfloor> \<le> \<bar>x\<bar>" "\<bar>x\<bar> < 2 powi (\<lfloor>log 2 \<bar>x\<bar>\<rfloor> + 1)"
proof -
  have pos: "0 < \<bar>x\<bar>" using assms by simp
  have two: "(1::real) < 2" by simp
  have a: "(2::real) powr real_of_int k = 2 powi k" for k
    by (rule powr_real_of_int') simp_all
  from floor_log_eq_powr_iff[OF pos two, of "\<lfloor>log 2 \<bar>x\<bar>\<rfloor>"]
  show "2 powi \<lfloor>log 2 \<bar>x\<bar>\<rfloor> \<le> \<bar>x\<bar>" "\<bar>x\<bar> < 2 powi (\<lfloor>log 2 \<bar>x\<bar>\<rfloor> + 1)"
    unfolding a by simp_all
qed

lemma floor_log2_eq:
  assumes "2 powi k \<le> \<bar>x\<bar>" "\<bar>x\<bar> < 2 powi (k + 1)"
  shows "\<lfloor>log 2 \<bar>x\<bar>\<rfloor> = k"
proof -
  have "(0::real) < 2 powi k" by simp
  with assms(1) have pos: "0 < \<bar>x\<bar>" by linarith
  have two: "(1::real) < 2" by simp
  have a: "(2::real) powr real_of_int j = 2 powi j" for j
    by (rule powr_real_of_int') simp_all
  show ?thesis unfolding floor_log_eq_powr_iff[OF pos two] a using assms by simp
qed

lemma binade_eq:
  assumes "2 powi k \<le> \<bar>x\<bar>" "\<bar>x\<bar> < 2 powi (k + 1)" "- 1022 \<le> k"
  shows "binade x = k"
  using floor_log2_eq[OF assms(1,2)] assms(3) by (simp add: binade_def)

lemma binade_upper: "x \<noteq> 0 \<Longrightarrow> \<bar>x\<bar> < 2 powi (binade x + 1)"
proof -
  assume x: "x \<noteq> 0"
  have "(2::real) powi (\<lfloor>log 2 \<bar>x\<bar>\<rfloor> + 1) \<le> 2 powi (binade x + 1)"
    by (rule power_int_increasing) (simp_all add: binade_def)
  with floor_log2_bounds(2)[OF x] show ?thesis by linarith
qed

lemma binade_lower: "2 powi (- 1022) \<le> \<bar>x\<bar> \<Longrightarrow> 2 powi (binade x) \<le> \<bar>x\<bar>"
proof -
  assume a: "2 powi (- 1022) \<le> \<bar>x\<bar>"
  have "(0::real) < 2 powi (- 1022)" by (rule zero_less_power_int) simp
  with a have x: "x \<noteq> 0" by auto
  have "- 1022 \<le> \<lfloor>log 2 \<bar>x\<bar>\<rfloor>"
  proof (rule ccontr)
    assume "\<not> - 1022 \<le> \<lfloor>log 2 \<bar>x\<bar>\<rfloor>"
    then have "\<lfloor>log 2 \<bar>x\<bar>\<rfloor> + 1 \<le> - 1022" by linarith
    then have "(2::real) powi (\<lfloor>log 2 \<bar>x\<bar>\<rfloor> + 1) \<le> 2 powi (- 1022)"
      by (rule power_int_increasing) simp
    with floor_log2_bounds(2)[OF x] a show False by linarith
  qed
  then have "binade x = \<lfloor>log 2 \<bar>x\<bar>\<rfloor>" by (simp add: binade_def)
  with floor_log2_bounds(1)[OF x] show ?thesis by simp
qed

lemma binade_subnormal:
  assumes False: "x \<noteq> 0" and a: "\<bar>x\<bar> < 2 powi (- 1022)"
  shows "binade x = - 1022"
proof -
  have "\<lfloor>log 2 \<bar>x\<bar>\<rfloor> \<le> - 1022"
  proof (rule ccontr)
    assume "\<not> \<lfloor>log 2 \<bar>x\<bar>\<rfloor> \<le> - 1022"
    then have "- 1022 \<le> \<lfloor>log 2 \<bar>x\<bar>\<rfloor>" by linarith
    then have "(2::real) powi (- 1022) \<le> 2 powi \<lfloor>log 2 \<bar>x\<bar>\<rfloor>"
      by (rule power_int_increasing) simp
    with floor_log2_bounds(1)[OF False] a show False by linarith
  qed
  then show ?thesis by (simp add: binade_def)
qed

lemma binade_ge: "- 1022 \<le> binade x"
  by (simp add: binade_def)

lemma binade_minus: "binade (- x) = binade x"
  by (simp add: binade_def)

lemma binade_mono:
  assumes "x \<noteq> 0" "\<bar>x\<bar> \<le> \<bar>y\<bar>"
  shows "binade x \<le> binade y"
proof -
  have "log 2 \<bar>x\<bar> \<le> log 2 \<bar>y\<bar>" using assms by (intro log_mono) simp_all
  then have "\<lfloor>log 2 \<bar>x\<bar>\<rfloor> \<le> \<lfloor>log 2 \<bar>y\<bar>\<rfloor>" by (rule floor_mono)
  then show ?thesis by (simp add: binade_def)
qed

lemma to_double_eval:
  assumes "2 powi k \<le> \<bar>x\<bar>" "\<bar>x\<bar> < 2 powi (k + 1)" "- 1022 \<le> k"
  shows "to_double x = of_int (round_even (x / 2 powi (k - 52))) * 2 powi (k - 52)"
proof -
  have "(0::real) < 2 powi k" by simp
  with assms(1) have "x \<noteq> 0" by linarith
  then show ?thesis by (simp add: to_double_def binade_eq[OF assms])
qed

lemma to_double_0: "to_double 0 = 0"
  by (simp add: to_double_def)

lemma to_double_minus: "to_double (- x) = - to_double x"
  by (simp add: to_double_def binade_minus round_even_minus)

lemma to_double_nonneg: "0 \<le> x \<Longrightarrow> 0 \<le> to_double x"
proof -
  assume x: "0 \<le> x"
  have "0 \<le> x / 2 powi (binade x - 52)" using x by simp
  then have "round_even 0 \<le> round_even (x / 2 powi (binade x - 52))" by (rule round_even_mono)
  then have "0 \<le> round_even (x / 2 powi (binade x - 52))"
    using round_even_of_int[of 0] by simp
  then show ?thesis by (simp add: to_double_def)
qed

lemma to_double_upper:
  assumes "0 < x"
  shows "to_double x \<le> 2 powi (binade x + 1)"
proof -
  let ?u = "(2::real) powi (binade x - 52)"
  have u: "0 < ?u" by simp
  have "x < 2 powi (binade x + 1)" using binade_upper[of x] assms by simp
  also have "(2::real) powi (binade x + 1) = 2 ^ 53 * ?u"
    using power_int_add[of "2::real" 53 "binade x - 52"] by (simp add: add.commute)
  finally have "x / ?u \<le> 2 ^ 53" using u by (simp add: field_simps)
  then have "round_even (x / ?u) \<le> round_even (of_int (2 ^ 53))"
    by (intro round_even_mono) simp
  then have "round_even (x / ?u) \<le> 2 ^ 53" by (simp only: round_even_of_int)
  then have "real_of_int (round_even (x / ?u)) \<le> 2 ^ 53"
    by (metis of_int_le_iff of_int_numeral of_int_power)
  then have "real_of_int (round_even (x / ?u)) * ?u \<le> 2 ^ 53 * ?u"
    using u by (intro mult_right_mono) simp_all
  then show ?thesis
    using assms \<open>(2::real) powi (binade x + 1) = 2 ^ 53 * ?u\<close> by (simp add: to_double_def)
qed

lemma to_double_lower:
  assumes "0 < x" "2 powi (- 1022) \<le> x"
  shows "2 powi (binade x) \<le> to_double x"
proof -
  let ?u = "(2::real) powi (binade x - 52)"
  have u: "0 < ?u" by simp
  have "2 powi (binade x) \<le> x" using binade_lower[of x] assms by simp
  moreover have e: "(2::real) powi (binade x) = 2 ^ 52 * ?u"
    using power_int_add[of "2::real" 52 "binade x - 52"] by simp
  ultimately have "2 ^ 52 \<le> x / ?u" using u by (simp add: field_simps)
  then have "round_even (of_int (2 ^ 52)) \<le> round_even (x / ?u)"
    by (intro round_even_mono) simp
  then have "2 ^ 52 \<le> round_even (x / ?u)" by (simp only: round_even_of_int)
  then have "2 ^ 52 \<le> real_of_int (round_even (x / ?u))"
    by (metis of_int_le_iff of_int_numeral of_int_power)
  then have "2 ^ 52 * ?u \<le> real_of_int (round_even (x / ?u)) * ?u"
    using u by (intro mult_right_mono) simp_all
  then show ?thesis using assms e by (simp add: to_double_def)
qed

lemma to_double_mono_pos:
  assumes "0 < x" "x \<le> y"
  shows "to_double x \<le> to_double y"
proof (cases "binade x = binade y")
  case True
  let ?u = "(2::real) powi (binade y - 52)"
  have "x / ?u \<le> y / ?u" using assms(2) by (simp add: divide_right_mono)
  then have "round_even (x / ?u) \<le> round_even (y / ?u)" by (rule round_even_mono)
  then have "real_of_int (round_even (x / ?u)) * ?u \<le> real_of_int (round_even (y / ?u)) * ?u"
    by (intro mult_right_mono) simp_all
  then show ?thesis using assms True by (simp add: to_double_def)
next
  case False
  have "binade x \<le> binade y" using assms by (intro binade_mono) simp_all
  with False have lt: "binade x + 1 \<le> binade y" by simp
  have y: "0 < y" using assms by simp
  have "\<not> \<bar>y\<bar> < 2 powi (- 1022)"
    using binade_subnormal[of y] binade_ge[of x] lt y by auto
  then have "2 powi (- 1022) \<le> y" using y by simp
  from to_double_lower[OF y this] have "2 powi (binade y) \<le> to_double y" .
  moreover have "(2::real) powi (binade x + 1) \<le> 2 powi (binade y)"
    using lt by (rule power_int_increasing) simp
  ultimately show ?thesis using to_double_upper[OF assms(1)] by linarith
qed

lemma to_double_mono:
  assumes "x \<le> y"
  shows "to_double x \<le> to_double y"
proof -
  consider "0 < x" | "x \<le> 0" "0 \<le> y" | "y < 0" by linarith
  then show ?thesis
  proof cases
    case 1
    then show ?thesis using assms by (rule to_double_mono_pos)
  next
    case 2
    have "to_double x = - to_double (- x)" by (simp add: to_double_minus)
    moreover have "0 \<le> to_double (- x)" using 2(1) by (intro to_double_nonneg) simp
    ultimately show ?thesis using to_double_nonneg[OF 2(2)] by linarith
  next
    case 3
    then have "to_double (- y) \<le> to_double (- x)" using assms by (intro to_double_mono_pos) simp_all
    then show ?thesis by (simp add: to_double_minus)
  qed
qed

lemma to_double_error: "\<bar>to_double x - x\<bar> \<le> 2 powi (binade x - 53)"
proof (cases "x = 0")
  case True
  then show ?thesis by (simp add: to_double_def)
next
  case False
  let ?u = "(2::real) powi (binade x - 52)"
  have u: "0 < ?u" by simp
  have h: "(2::real) powi (binade x - 53) = ?u / 2"
    using power_int_add[of "2::real" "binade x - 53" 1] by simp
  define r where "r = real_of_int (round_even (x / ?u))"
  have "\<bar>r - x / ?u\<bar> \<le> 1 / 2" unfolding r_def by (rule round_even_error)
  then have "\<bar>r - x / ?u\<bar> * ?u \<le> 1 / 2 * ?u"
    using u by (intro mult_right_mono) simp_all
  moreover have "r * ?u - x = (r - x / ?u) * ?u" using u by (simp add: field_simps)
  then have "\<bar>r * ?u - x\<bar> = \<bar>r - x / ?u\<bar> * ?u" using u by (simp add: abs_mult)
  moreover have "to_double x = r * ?u" using False by (simp add: to_double_def r_def)
  ultimately show ?thesis by (simp add: h)
qed

lemma double_multiple:
  assumes "to_double x = x"
  shows "\<exists>n::int. x = of_int n * 2 powi (- 1074)"
proof (cases "x = 0")
  case True
  then show ?thesis by (intro exI[of _ 0]) simp
next
  case False
  define j where "j = nat (binade x + 1022)"
  have j: "binade x - 52 = int j + (- 1074)" using binade_ge[of x] by (simp add: j_def)
  have "(2::real) powi (binade x - 52) = 2 ^ j * 2 powi (- 1074)"
    unfolding j using power_int_add[of "2::real" "int j" "- 1074"] by simp
  then have "to_double x
      = of_int (round_even (x / 2 powi (binade x - 52)) * 2 ^ j) * 2 powi (- 1074)"
    using False by (simp add: to_double_def)
  with assms show ?thesis by metis
qed

lemma subnormal_double:
  assumes "x = of_int n * 2 powi (- 1074)" "\<bar>x\<bar> < 2 powi (- 1022)"
  shows "to_double x = x"
proof (cases "x = 0")
  case True
  then show ?thesis by (simp add: to_double_def)
next
  case False
  have b: "binade x - 52 = - 1074" using binade_subnormal[OF False assms(2)] by simp
  have "x / 2 powi (- 1074) = of_int n" using assms(1) by simp
  then show ?thesis
    using False unfolding to_double_def b by (simp only: round_even_of_int assms(1) if_False)
qed

lemma to_double_scaled_difference:
  assumes ds: "to_double s = s" and de: "to_double e = e" and se: "s \<le> e"
    and m: "0 \<le> m" "m \<le> 3 / 4"
  shows "0 \<le> to_double (to_double (e - s) * m)" "to_double (to_double (e - s) * m) \<le> e - s"
proof -
  define z where "z = e - s"
  have z: "0 \<le> z" using se by (simp add: z_def)
  have d0: "0 \<le> to_double z" using z by (rule to_double_nonneg)
  then have y0: "0 \<le> to_double z * m" using m(1) by simp
  then show "0 \<le> to_double (to_double (e - s) * m)"
    unfolding z_def[symmetric] by (rule to_double_nonneg)
  show "to_double (to_double (e - s) * m) \<le> e - s"
    unfolding z_def[symmetric]
  proof (cases "z < 2 powi (- 1022)")
    case True
    obtain ns ne :: int where "s = of_int ns * 2 powi (- 1074)" "e = of_int ne * 2 powi (- 1074)"
      using double_multiple[OF ds] double_multiple[OF de] by blast
    then have "z = of_int (ne - ns) * 2 powi (- 1074)" by (simp add: z_def left_diff_distrib)
    moreover have "\<bar>z\<bar> < 2 powi (- 1022)" using True z by simp
    ultimately have dz: "to_double z = z" by (rule subnormal_double)
    have "z * m \<le> z * 1" using m z by (intro mult_left_mono) simp_all
    then have "to_double (z * m) \<le> to_double z" by (intro to_double_mono) simp
    then show "to_double (to_double z * m) \<le> z" by (simp add: dz)
  next
    case False
    then have big: "2 powi (- 1022) \<le> \<bar>z\<bar>" using z by simp
    have zp: "0 < z"
    proof -
      have "(0::real) < 2 powi (- 1022)" by (rule zero_less_power_int) simp
      with big z show ?thesis by linarith
    qed
    define w :: real where "w = 2 powi (binade z - 53)"
    have w0: "0 < w" by (simp add: w_def)
    have "(2::real) powi (binade z) = 2 ^ 53 * w"
      unfolding w_def using power_int_add[of "2::real" 53 "binade z - 53"] by simp
    with binade_lower[OF big] have "2 ^ 53 * w \<le> z" using z by simp
    moreover have "8 * w \<le> 2 ^ 53 * w" using w0 by (intro mult_right_mono) simp_all
    ultimately have w8: "8 * w \<le> z" by linarith
    have dz: "to_double z \<le> z + w" using to_double_error[of z] by (simp add: w_def)
    have ym: "to_double z * m \<le> to_double z * (3 / 4)"
      using m(2) d0 by (intro mult_left_mono) simp_all
    show "to_double (to_double z * m) \<le> z"
    proof (cases "to_double z * m = 0")
      case True
      show ?thesis unfolding True to_double_0 by (rule z)
    next
      case nz: False
      have yz: "\<bar>to_double z * m\<bar> \<le> \<bar>z\<bar>" using y0 ym dz w8 z by linarith
      have "binade (to_double z * m) \<le> binade z" using nz yz by (rule binade_mono)
      then have "(2::real) powi (binade (to_double z * m) - 53) \<le> 2 powi (binade z - 53)"
        by (intro power_int_increasing) simp_all
      with to_double_error[of "to_double z * m"]
      have "to_double (to_double z * m) \<le> to_double z * m + w" by (simp add: w_def)
      with ym dz w8 z show ?thesis by linarith
    qed
  qed
qed

lemma to_double_1: "to_double 1 = 1"
  using to_double_eval[of 0 1] by (simp add: round_even_def)

section \<open>The easing curve\<close>

lemma rnd_exact: "rnd exact_arith x = x"
  by (simp add: exact_arith_def)

lemma fexp_exact: "fexp exact_arith x = exp x"
  by (simp add: exact_arith_def)

lemma rnd_double: "rnd (double_arith libm_exp) = to_double"
  by (simp add: double_arith_def)

lemma monotonic_ramp_cases:
  "monotonic_ramp rt \<Longrightarrow>
   rt = ''linear'' \<or> rt = ''ease_in'' \<or> rt = ''ease_out'' \<or> rt = ''ease_in_out''
    \<or> rt = ''exponential'' \<or> rt = ''smoothstep''"
  unfolding monotonic_ramp_def by (simp only: list.set insert_iff empty_iff simp_thms)

lemma ease_in_out_bounds: assumes "0 < x" "x < 1" shows "0 < x * x * (3 - 2 * x)" "x * x * (3 - 2 * x) < (1::real)"
proof -
  have "0 < x * x" using assms by simp
  moreover have "0 < 3 - 2 * x" using assms by simp
  ultimately show "0 < x * x * (3 - 2 * x)" by (rule mult_pos_pos)
  have "0 < (1 - x) * (1 - x) * (2 * x + 1)" using assms by (intro mult_pos_pos) simp_all
  moreover have "(1 - x) * (1 - x) * (2 * x + 1) = 1 - x * x * (3 - 2 * x)" by (simp add: algebra_simps)
  ultimately show "x * x * (3 - 2 * x) < 1" by simp
qed

lemma exponential_exact: "exponential exact_arith x = Inr ((exp x - 1) / (exp 1 - 1))"
  by (simp add: exponential_def Let_def rnd_exact fexp_exact)

lemma modified_progress_bounds:
  assumes "monotonic_ramp rt" "0 < x" "x < 1"
  shows "\<exists>m. modified_progress exact_arith rt x = Inr m \<and> 0 < m \<and> m < 1"
proof -
  have lt1: "y * y < 1" if "0 < y" "y < 1" for y :: real
  proof -
    have "y * y < 1 * 1" by (rule mult_strict_mono) (use that in simp_all)
    then show ?thesis by simp
  qed
  have sq: "0 < x * x" "x * x < 1" using assms(2,3) lt1[of x] by simp_all
  have sq': "0 < (1 - x) * (1 - x)" "(1 - x) * (1 - x) < 1"
    using assms(2,3) lt1[of "1 - x"] by simp_all
  have ex: "0 < (exp x - 1) / (exp 1 - 1)" "(exp x - 1) / (exp 1 - 1) < 1"
    using assms(2,3) by simp_all
  note eio = ease_in_out_bounds[OF assms(2,3)]
  from monotonic_ramp_cases[OF assms(1)]
  consider "rt = ''linear''" | "rt = ''ease_in''" | "rt = ''ease_out''" | "rt = ''ease_in_out''"
    | "rt = ''exponential''" | "rt = ''smoothstep''" by (elim disjE)
  then show ?thesis
    using assms(2,3) sq sq' ex eio
    by cases (simp_all add: modified_progress_def ease_in_def ease_out_def ease_in_out_def
        exponential_exact smoothstep_def rnd_exact)
qed

lemma strictly_between:
  assumes "0 < m" "m < (1::real)" "s \<noteq> e"
  shows "(s < s + (e - s) * m \<and> s + (e - s) * m < e) \<or> (e < s + (e - s) * m \<and> s + (e - s) * m < s)"
proof (cases "s < e")
  case True
  then have "0 < (e - s) * m" "(e - s) * m < (e - s) * 1" using assms by (simp_all)
  then show ?thesis by simp
next
  case False
  with assms have "e < s" by simp
  then have "(e - s) * m < 0" "(e - s) * 1 < (e - s) * m" using assms by (simp_all add: mult_neg_pos)
  then show ?thesis by simp
qed

lemma get_value_first_step:
  assumes "1 \<le> steps_threshold" "attr_i self = None \<or> attr_i self = Some 0"
  shows "get_value ar self start end_value steps_threshold ramp_type =
          (curve_value ar start end_value steps_threshold ramp_type 1, self)"
proof -
  have cs: "(case attr_i self of None \<Rightarrow> 0 | Some i \<Rightarrow> i) + 1 = 1" using assms(2) by auto
  show ?thesis
    unfolding get_value_def Let_def cs curve_value_def using assms(1)
    by (simp split: sum.splits)
qed

lemma to_double_consts:
  "to_double (1 / 4) = 1 / 4" "to_double (1 / 2) = 1 / 2" "to_double (3 / 4) = 3 / 4"
  "to_double 2 = 2" "to_double 3 = 3"
  using to_double_eval[of "-2" "1 / 4"] to_double_eval[of "-1" "1 / 2"]
    to_double_eval[of "-1" "3 / 4"] to_double_eval[of 1 2] to_double_eval[of 1 3]
  by (simp_all add: round_even_def)

lemma to_double_in:
  assumes "lo \<le> x" "x \<le> hi" "to_double lo = lo" "to_double hi = hi"
  shows "lo \<le> to_double x" "to_double x \<le> hi"
  using to_double_mono[OF assms(1)] to_double_mono[OF assms(2)] assms(3,4) by simp_all

lemma libm_exp_ok_exp: "libm_exp_ok exp"
proof -
  have "exp x \<le> 7 / 4" if "0 \<le> x" "x \<le> 1 / 2" for x :: real
  proof -
    have "exp x \<le> exp (1 / 2)" using that by simp
    also have "\<dots> \<le> 1 + 1 / 2 + (1 / 2)\<^sup>2" by (rule exp_bound) simp_all
    also have "\<dots> = 7 / 4" by (simp add: power2_eq_square)
    finally show ?thesis .
  qed
  moreover have "2 \<le> exp (1::real)" using exp_ge_add_one_self[of "1::real"] by simp
  ultimately show ?thesis by (simp add: libm_exp_ok_def)
qed

lemma progress_double:
  assumes "2 \<le> steps_threshold"
  shows "0 \<le> to_double (1 / real_of_int steps_threshold)"
    "to_double (1 / real_of_int steps_threshold) \<le> 1 / 2"
proof -
  have "0 \<le> 1 / real_of_int steps_threshold" "1 / real_of_int steps_threshold \<le> 1 / 2"
    using assms by (simp_all add: field_simps)
  then show "0 \<le> to_double (1 / real_of_int steps_threshold)"
    "to_double (1 / real_of_int steps_threshold) \<le> 1 / 2"
    using to_double_in[of 0 _ "1 / 2"] by (simp_all add: to_double_0 to_double_consts)
qed

lemma ease_in_double:
  assumes "0 \<le> p" "p \<le> 1 / 2"
  shows "0 \<le> ease_in (double_arith f) p" "ease_in (double_arith f) p \<le> 3 / 4"
proof -
  have "0 \<le> p * p" using assms by simp
  moreover have "p * p \<le> 1 / 2 * (1 / 2)" using assms by (intro mult_mono) simp_all
  ultimately have "0 \<le> to_double (p * p)" "to_double (p * p) \<le> 1 / 4"
    using to_double_in[of 0 "p * p" "1 / 4"] by (simp_all add: to_double_0 to_double_consts)
  then show "0 \<le> ease_in (double_arith f) p" "ease_in (double_arith f) p \<le> 3 / 4"
    by (simp_all add: ease_in_def rnd_double)
qed

lemma ease_out_double:
  assumes "0 \<le> p" "p \<le> 1 / 2"
  shows "0 \<le> ease_out (double_arith f) p" "ease_out (double_arith f) p \<le> 3 / 4"
proof -
  define a where "a = to_double (1 - p)"
  define b where "b = to_double (a * a)"
  have a: "1 / 2 \<le> a" "a \<le> 1"
    unfolding a_def using assms to_double_in[of "1 / 2" "1 - p" 1]
    by (simp_all add: to_double_1 to_double_consts)
  have "1 / 2 * (1 / 2) \<le> a * a" using a by (intro mult_mono) simp_all
  moreover have "a * a \<le> 1 * 1" using a by (intro mult_mono) simp_all
  ultimately have b: "1 / 4 \<le> b" "b \<le> 1"
    unfolding b_def using to_double_in[of "1 / 4" "a * a" 1]
    by (simp_all add: to_double_1 to_double_consts)
  have "0 \<le> to_double (1 - b)" "to_double (1 - b) \<le> 3 / 4"
    using b to_double_in[of 0 "1 - b" "3 / 4"] by (simp_all add: to_double_0 to_double_consts)
  then show "0 \<le> ease_out (double_arith f) p" "ease_out (double_arith f) p \<le> 3 / 4"
    by (simp_all add: ease_out_def rnd_double a_def b_def)
qed

lemma smoothstep_double:
  assumes "0 \<le> p" "p \<le> 1 / 2"
  shows "0 \<le> to_double (to_double (p * p) * to_double (3 - to_double (2 * p)))"
    "to_double (to_double (p * p) * to_double (3 - to_double (2 * p))) \<le> 3 / 4"
proof -
  define q where "q = to_double (p * p)"
  define t where "t = to_double (2 * p)"
  define u where "u = to_double (3 - t)"
  have "0 \<le> p * p" using assms by simp
  moreover have "p * p \<le> 1 / 2 * (1 / 2)" using assms by (intro mult_mono) simp_all
  ultimately have q: "0 \<le> q" "q \<le> 1 / 4"
    unfolding q_def using to_double_in[of 0 "p * p" "1 / 4"]
    by (simp_all add: to_double_0 to_double_consts)
  have t: "0 \<le> t" "t \<le> 1"
    unfolding t_def using assms to_double_in[of 0 "2 * p" 1]
    by (simp_all add: to_double_0 to_double_1)
  have u: "2 \<le> u" "u \<le> 3"
    unfolding u_def using t to_double_in[of 2 "3 - t" 3] by (simp_all add: to_double_consts)
  have "0 \<le> q * u" using q u by simp
  moreover have "q * u \<le> 1 / 4 * 3" using q u by (intro mult_mono) simp_all
  ultimately have "0 \<le> to_double (q * u)" "to_double (q * u) \<le> 3 / 4"
    using to_double_in[of 0 "q * u" "3 / 4"] by (simp_all add: to_double_0 to_double_consts)
  then show "0 \<le> to_double (to_double (p * p) * to_double (3 - to_double (2 * p)))"
    "to_double (to_double (p * p) * to_double (3 - to_double (2 * p))) \<le> 3 / 4"
    by (simp_all add: q_def t_def u_def)
qed

lemma exponential_double:
  assumes "0 \<le> p" "p \<le> 1 / 2" "libm_exp_ok f"
  shows "\<exists>m. exponential (double_arith f) p = Inr m \<and> 0 \<le> m \<and> m \<le> 3 / 4"
proof -
  define n where "n = to_double (f p - 1)"
  define d where "d = to_double (f 1 - 1)"
  have fp: "1 \<le> f p" "f p \<le> 7 / 4" and f1: "2 \<le> f 1"
    using assms by (simp_all add: libm_exp_ok_def)
  have n: "0 \<le> n" "n \<le> 3 / 4"
    unfolding n_def using fp to_double_in[of 0 "f p - 1" "3 / 4"]
    by (simp_all add: to_double_0 to_double_consts)
  have "to_double 1 \<le> d" unfolding d_def using f1 by (intro to_double_mono) simp
  then have d: "1 \<le> d" by (simp add: to_double_1)
  have "n / d \<le> n / 1" using n d by (intro divide_left_mono) simp_all
  then have "n / d \<le> 3 / 4" using n(2) by linarith
  moreover have "0 \<le> n / d" using n d by simp
  ultimately have "0 \<le> to_double (n / d)" "to_double (n / d) \<le> 3 / 4"
    using to_double_in[of 0 "n / d" "3 / 4"] by (simp_all add: to_double_0 to_double_consts)
  moreover have "exponential (double_arith f) p = Inr (to_double (n / d))"
    using d by (simp add: exponential_def Let_def double_arith_def n_def[symmetric] d_def[symmetric])
  ultimately show ?thesis by simp
qed

lemma modified_progress_double:
  assumes "monotonic_ramp rt" "0 \<le> p" "p \<le> 1 / 2" "libm_exp_ok f"
  shows "\<exists>m. modified_progress (double_arith f) rt p = Inr m \<and> 0 \<le> m \<and> m \<le> 3 / 4"
proof -
  note ei = ease_in_double[OF assms(2,3), of f]
  note eo = ease_out_double[OF assms(2,3), of f]
  note ss = smoothstep_double[OF assms(2,3)]
  note ex = exponential_double[OF assms(2,3,4)]
  from monotonic_ramp_cases[OF assms(1)]
  consider "rt = ''linear''" | "rt = ''ease_in''" | "rt = ''ease_out''" | "rt = ''ease_in_out''"
    | "rt = ''exponential''" | "rt = ''smoothstep''" by (elim disjE)
  then show ?thesis
    using assms(2,3) ei eo ss ex
    by cases (simp_all add: modified_progress_def ease_in_out_def smoothstep_def rnd_double)
qed

lemma double_ramp_between:
  assumes ds: "to_double s = s" and de: "to_double e = e" and m: "0 \<le> m" "m \<le> 3 / 4"
  shows "min s e \<le> to_double (s + to_double (to_double (e - s) * m))"
    "to_double (s + to_double (to_double (e - s) * m)) \<le> max s e"
proof -
  define t where "t = to_double (to_double (e - s) * m)"
  have "min s e \<le> s + t \<and> s + t \<le> max s e"
  proof (cases "s \<le> e")
    case True
    from to_double_scaled_difference[OF ds de True m]
    show ?thesis using True by (simp add: t_def)
  next
    case False
    then have es: "e \<le> s" by simp
    have "e - s = - (s - e)" by simp
    then have "t = - to_double (to_double (s - e) * m)"
      unfolding t_def by (simp only: to_double_minus mult_minus_left)
    with to_double_scaled_difference[OF de ds es m]
    show ?thesis using es by simp
  qed
  then have "to_double (min s e) \<le> to_double (s + t)" "to_double (s + t) \<le> to_double (max s e)"
    by (simp_all add: to_double_mono)
  moreover have "to_double (min s e) = min s e" "to_double (max s e) = max s e"
    using ds de by (simp_all add: min_def max_def)
  ultimately show "min s e \<le> to_double (s + to_double (to_double (e - s) * m))"
    "to_double (s + to_double (to_double (e - s) * m)) \<le> max s e"
    by (simp_all add: t_def)
qed

text \<open>In doubles the value at step index 0 need not lie strictly between: between two
  neighbouring doubles there is nothing, and the value is rounded to one of them.\<close>

lemma ramp_neighbouring_doubles:
  "get_value (double_arith exp) fresh_ramp_node 1 (1 + 1 / 2 ^ 52) 4 ''linear''
     = (Inr 1, fresh_ramp_node)"
proof -
  have 1: "to_double (1 / 4) = 1 / 4"
    using to_double_eval[of "-2" "1 / 4"] by (simp add: round_even_def)
  have 2: "to_double (1 + 1 / 2 ^ 52 - 1) = 1 / 2 ^ 52"
    using to_double_eval[of "-52" "1 + 1 / 2 ^ 52 - 1"] by (simp add: round_even_def)
  have 3: "to_double (1 / 2 ^ 52 * (1 / 4)) = 1 / 2 ^ 54"
    using to_double_eval[of "-54" "1 / 2 ^ 52 * (1 / 4)"] by (simp add: round_even_def)
  have 4: "to_double (1 + 1 / 2 ^ 54) = 1"
    using to_double_eval[of 0 "1 + 1 / 2 ^ 54"] by (simp add: round_even_def)
  have "get_value (double_arith exp) fresh_ramp_node 1 (1 + 1 / 2 ^ 52) 4 ''linear''
      = (Inr (to_double (1 + to_double (to_double (1 + 1 / 2 ^ 52 - 1) * to_double (1 / 4)))),
         fresh_ramp_node)"
    by (simp add: get_value_def fresh_ramp_node_def modified_progress_def double_arith_def)
  then show ?thesis by (simp only: 1 2 3 4)
qed

text \<open>
  Claim C8, amended. The step counted is the step index plus one. At step index 0 (the
  attribute \<open>i\<close> absent or 0), with a threshold of at least 2 and the monotonic ramp
  types: in exact arithmetic the value \<open>start + (end - start) * f (1 / threshold)\<close> is
  strictly between \<open>start\<close> and \<open>end\<close> when these differ; in doubles the value returned
  lies between \<open>start\<close> and \<open>end\<close>, both included (it can be \<open>start\<close> or \<open>end\<close>
  itself when the two are a few units in the last place apart), for doubles \<open>start\<close>
  and \<open>end\<close> whose difference does not overflow. At every step index that is at least
  the threshold the result is exactly \<open>end\<close>, in every arithmetic and whatever the
  other parameters.
\<close>

theorem ramp_first_step_and_end:
  "(2 \<le> steps_threshold \<and> start \<noteq> end_value \<and> monotonic_ramp ramp_type \<and>
    (attr_i self = None \<or> attr_i self = Some 0) \<longrightarrow>
      (\<exists>v. get_value exact_arith self start end_value steps_threshold ramp_type = (Inr v, self) \<and>
           ((start < v \<and> v < end_value) \<or> (end_value < v \<and> v < start)))) \<and>
   (2 \<le> steps_threshold \<and> monotonic_ramp ramp_type \<and>
    (attr_i self = None \<or> attr_i self = Some 0) \<and>
    to_double start = start \<and> to_double end_value = end_value \<and>
    \<bar>end_value - start\<bar> < overflow_bound \<and> libm_exp_ok libm_exp \<longrightarrow>
      (\<exists>v. get_value (double_arith libm_exp) self start end_value steps_threshold ramp_type
              = (Inr v, self) \<and>
           min start end_value \<le> v \<and> v \<le> max start end_value)) \<and>
   (\<forall>i. attr_i self = Some i \<and> steps_threshold \<le> i \<longrightarrow>
      get_value ar self start end_value steps_threshold ramp_type = (Inr end_value, self))"
proof (intro conjI impI allI)
  assume a: "2 \<le> steps_threshold \<and> start \<noteq> end_value \<and> monotonic_ramp ramp_type \<and>
    (attr_i self = None \<or> attr_i self = Some 0)"
  then have n: "2 \<le> steps_threshold" and se: "start \<noteq> end_value"
    and mono: "monotonic_ramp ramp_type" and first: "attr_i self = None \<or> attr_i self = Some 0"
    by blast+
  let ?x = "1 / real_of_int steps_threshold"
  have x: "0 < ?x" "?x < 1" using n by simp_all
  from modified_progress_bounds[OF mono x]
  obtain m where m: "modified_progress exact_arith ramp_type ?x = Inr m" "0 < m" "m < 1"
    by blast
  have "get_value exact_arith self start end_value steps_threshold ramp_type =
          (Inr (start + (end_value - start) * m), self)"
    using n m(1) by (simp add: get_value_first_step[OF _ first] curve_value_def rnd_exact)
  with strictly_between[OF m(2,3) se]
  show "\<exists>v. get_value exact_arith self start end_value steps_threshold ramp_type = (Inr v, self) \<and>
              ((start < v \<and> v < end_value) \<or> (end_value < v \<and> v < start))" by simp
next
  assume a: "2 \<le> steps_threshold \<and> monotonic_ramp ramp_type \<and>
    (attr_i self = None \<or> attr_i self = Some 0) \<and>
    to_double start = start \<and> to_double end_value = end_value \<and>
    \<bar>end_value - start\<bar> < overflow_bound \<and> libm_exp_ok libm_exp"
  then have n: "2 \<le> steps_threshold" and mono: "monotonic_ramp ramp_type"
    and first: "attr_i self = None \<or> attr_i self = Some 0"
    and ds: "to_double start = start" and de: "to_double end_value = end_value"
    and ok: "libm_exp_ok libm_exp"
    by blast+
  let ?p = "to_double (1 / real_of_int steps_threshold)"
  from modified_progress_double[OF mono progress_double[OF n] ok]
  obtain m where m: "modified_progress (double_arith libm_exp) ramp_type ?p = Inr m"
    "0 \<le> m" "m \<le> 3 / 4"
    by blast
  have "get_value (double_arith libm_exp) self start end_value steps_threshold ramp_type =
          (Inr (to_double (start + to_double (to_double (end_value - start) * m))), self)"
    using n m(1) by (simp add: get_value_first_step[OF _ first] curve_value_def rnd_double)
  with double_ramp_between[OF ds de m(2,3)]
  show "\<exists>v. get_value (double_arith libm_exp) self start end_value steps_threshold ramp_type
              = (Inr v, self) \<and>
           min start end_value \<le> v \<and> v \<le> max start end_value" by simp
next
  fix i assume "attr_i self = Some i \<and> steps_threshold \<le> i"
  then show "get_value ar self start end_value steps_threshold ramp_type = (Inr end_value, self)"
    by (simp add: get_value_def Let_def)
qed

theorem ramp_first_step_and_end_witness:
  "(2::int) \<le> 4 \<and> (0::real) \<noteq> 1 \<and> monotonic_ramp ''ease_in'' \<and>
   attr_i fresh_ramp_node = None \<and>
   get_value exact_arith fresh_ramp_node 0 1 4 ''ease_in'' = (Inr (1 / 16), fresh_ramp_node) \<and>
   to_double 0 = 0 \<and> to_double 1 = 1 \<and> \<bar>1 - 0\<bar> < overflow_bound \<and> libm_exp_ok exp \<and>
   get_value (double_arith exp) fresh_ramp_node 0 1 4 ''ease_in''
     = (Inr (1 / 16), fresh_ramp_node) \<and>
   attr_i \<lparr>attr_i = Some 4, attr_total_steps = None\<rparr> = Some 4 \<and>
   get_value (double_arith exp) \<lparr>attr_i = Some 4, attr_total_steps = None\<rparr> 0 1 4 ''ease_in''
     = (Inr 1, \<lparr>attr_i = Some 4, attr_total_steps = None\<rparr>)"
proof -
  have mr: "monotonic_ramp ''ease_in''" by (simp add: monotonic_ramp_def)
  have g: "get_value exact_arith fresh_ramp_node 0 1 4 ''ease_in'' = (Inr (1 / 16), fresh_ramp_node)"
    by (simp add: get_value_def fresh_ramp_node_def modified_progress_def ease_in_def rnd_exact)
  have ob: "\<bar>1 - 0\<bar> < overflow_bound" by (simp add: overflow_bound_def)
  have s: "to_double (1 / 16) = 1 / 16"
    using to_double_eval[of "-4" "1 / 16"] by (simp add: round_even_def)
  have gd: "get_value (double_arith exp) fresh_ramp_node 0 1 4 ''ease_in''
      = (Inr (1 / 16), fresh_ramp_node)"
    by (simp add: get_value_def fresh_ramp_node_def modified_progress_def ease_in_def
        rnd_double to_double_1 to_double_consts s)
  note t = ramp_first_step_and_end[of 4 0 1 "''ease_in''" fresh_ramp_node exp]
  from t mr
  have "\<exists>v. get_value exact_arith fresh_ramp_node 0 1 4 ''ease_in'' = (Inr v, fresh_ramp_node) \<and>
           (((0::real) < v \<and> v < 1) \<or> (1 < v \<and> v < 0))"
    by (simp add: fresh_ramp_node_def)
  moreover from t mr ob libm_exp_ok_exp
  have "\<exists>v. get_value (double_arith exp) fresh_ramp_node 0 1 4 ''ease_in''
              = (Inr v, fresh_ramp_node) \<and> min 0 1 \<le> v \<and> v \<le> max 0 1"
    by (simp add: fresh_ramp_node_def to_double_0 to_double_1)
  moreover from ramp_first_step_and_end[of 4 0 1 "''ease_in''"
      "\<lparr>attr_i = Some 4, attr_total_steps = None\<rparr>" exp "double_arith exp"]
  have "get_value (double_arith exp) \<lparr>attr_i = Some 4, attr_total_steps = None\<rparr> 0 1 4 ''ease_in''
     = (Inr 1, \<lparr>attr_i = Some 4, attr_total_steps = None\<rparr>)" by simp
  ultimately show ?thesis using mr g gd ob libm_exp_ok_exp
    by (simp add: fresh_ramp_node_def to_double_0 to_double_1)
qed

text \<open>
  The claim as stated fails for a threshold of 1: the first step is already the last,
  and the value at step index 0 is \<open>end\<close> itself, not a value strictly between.
\<close>

theorem ramp_first_step_counterexample:
  "\<not> (\<exists>v. get_value (double_arith exp) fresh_ramp_node 0 1 1 ''linear''
              = (Inr v, fresh_ramp_node) \<and>
           ((0 < v \<and> v < 1) \<or> (1 < v \<and> v < 0)))"
  by (simp add: get_value_def fresh_ramp_node_def modified_progress_def double_arith_def
      to_double_1)

lemma call_keeps_instance: "snd (call ar c self) = self"
  by (cases c) (simp_all add: get_value_def Let_def split: sum.splits)

lemma calls_on_instance:
  "calls ar cs self = (map (\<lambda>c. fst (call ar c self)) cs, self)"
proof (induction cs)
  case Nil
  show ?case by simp
next
  case (Cons c cs)
  then show ?case by (simp add: split_beta call_keeps_instance)
qed

lemma bounce_exact_one: "bounce exact_arith 1 = 1"
  by (simp add: bounce_def Let_def rnd_exact)

lemma modified_progress_exact_one: "modified_progress exact_arith rt 1 = Inr 1"
  by (simp add: modified_progress_def ease_in_def ease_out_def ease_in_out_def
        exponential_exact smoothstep_def bounce_exact_one rnd_exact)

text \<open>
  Claim C10, amended. No method of the class assigns an attribute: \<open>get_value\<close>, and
  every sequence of calls of the methods of the class, returns the instance as it came.
  So on a fresh instance (no attribute \<open>i\<close>) every invocation of \<open>get_value\<close> with a
  threshold of at least 1, wherever it stands in a sequence of calls, returns the same
  value for the same parameters: the curve at step 1 of the threshold. For a threshold
  of 1 that value is \<open>end\<close> in exact arithmetic; in doubles the roundings of line
  807 can make it differ from \<open>end\<close>.
\<close>

theorem ramp_never_advances:
  "snd (get_value ar self start end_value steps_threshold ramp_type) = self \<and>
   snd (calls ar cs self) = self \<and>
   (1 \<le> steps_threshold \<longrightarrow>
      (\<forall>i < length cs. cs ! i = Call_get_value start end_value steps_threshold ramp_type \<longrightarrow>
         fst (calls ar cs fresh_ramp_node) ! i
           = curve_value ar start end_value steps_threshold ramp_type 1)) \<and>
   (steps_threshold = 1 \<longrightarrow>
      curve_value exact_arith start end_value steps_threshold ramp_type 1 = Inr end_value)"
proof (intro conjI impI allI)
  show "snd (get_value ar self start end_value steps_threshold ramp_type) = self"
    by (simp add: get_value_def Let_def split: sum.splits)
  show "snd (calls ar cs self) = self"
    by (simp add: calls_on_instance)
next
  fix i
  assume n: "1 \<le> steps_threshold" and i: "i < length cs"
    and c: "cs ! i = Call_get_value start end_value steps_threshold ramp_type"
  have "fst (calls ar cs fresh_ramp_node) ! i = fst (call ar (cs ! i) fresh_ramp_node)"
    using i by (simp add: calls_on_instance)
  also have "\<dots> = curve_value ar start end_value steps_threshold ramp_type 1"
    unfolding c using n by (simp add: get_value_first_step fresh_ramp_node_def)
  finally show "fst (calls ar cs fresh_ramp_node) ! i
      = curve_value ar start end_value steps_threshold ramp_type 1" .
next
  assume "steps_threshold = 1"
  then show "curve_value exact_arith start end_value steps_threshold ramp_type 1 = Inr end_value"
    by (simp add: curve_value_def rnd_exact modified_progress_exact_one)
qed

theorem ramp_never_advances_witness:
  "(1::int) \<le> 4 \<and>
   [Call_get_value 0 1 4 ''linear'', Call_bounce (1 / 2), Call_get_value 0 1 4 ''linear''] ! 2
     = Call_get_value 0 1 4 ''linear'' \<and>
   fst (calls (double_arith exp)
          [Call_get_value 0 1 4 ''linear'', Call_bounce (1 / 2), Call_get_value 0 1 4 ''linear'']
          fresh_ramp_node) ! 2 = Inr (1 / 4) \<and>
   snd (calls (double_arith exp)
          [Call_get_value 0 1 4 ''linear'', Call_bounce (1 / 2), Call_get_value 0 1 4 ''linear'']
          fresh_ramp_node) = fresh_ramp_node \<and>
   curve_value exact_arith 0 5 1 ''bounce'' 1 = Inr 5"
proof -
  let ?g = "Call_get_value 0 1 4 ''linear''"
  let ?cs = "[?g, Call_bounce (1 / 2), ?g]"
  note a = ramp_never_advances[of "double_arith exp" fresh_ramp_node 0 1 4 "''linear''" ?cs]
  note b = ramp_never_advances[of exact_arith fresh_ramp_node 0 5 1 "''bounce''" "[]"]
  have q: "to_double (1 / 4) = 1 / 4"
    using to_double_eval[of "-2" "1 / 4"] by (simp add: round_even_def)
  have c: "curve_value (double_arith exp) 0 1 4 ''linear'' 1 = Inr (1 / 4)"
    by (simp add: curve_value_def modified_progress_def rnd_double to_double_1 q)
  have n: "?cs ! 2 = ?g" by simp
  from a n have "fst (calls (double_arith exp) ?cs fresh_ramp_node) ! 2
      = curve_value (double_arith exp) 0 1 4 ''linear'' 1" by simp
  moreover from a have "snd (calls (double_arith exp) ?cs fresh_ramp_node) = fresh_ramp_node"
    by blast
  moreover from b have "curve_value exact_arith 0 5 1 ''bounce'' 1 = Inr 5" by simp
  ultimately show ?thesis using n c by simp
qed

text \<open>
  The claim as stated fails for a threshold of 1 in the arithmetic of the machine: with
  \<open>start\<close> the double of 0.03 and \<open>end\<close> the double of 0.3, the difference is rounded to
  the double of 0.27 and the sum to 0.30000000000000004, the double after \<open>end\<close>.
\<close>

theorem ramp_threshold_one_counterexample:
  "to_double (3 / 100) = 1080863910568919 / 2 ^ 55 \<and>
   to_double (3 / 10) = 5404319552844595 / 2 ^ 54 \<and>
   get_value (double_arith exp) fresh_ramp_node
       (1080863910568919 / 2 ^ 55) (5404319552844595 / 2 ^ 54) 1 ''linear''
     = (Inr (1351079888211149 / 2 ^ 52), fresh_ramp_node) \<and>
   (1351079888211149 / 2 ^ 52 :: real) \<noteq> 5404319552844595 / 2 ^ 54"
proof -
  have a: "to_double (3 / 100) = 1080863910568919 / 2 ^ 55"
    using to_double_eval[of "-6" "3 / 100"] by (simp add: round_even_def)
  have b: "to_double (3 / 10) = 5404319552844595 / 2 ^ 54"
    using to_double_eval[of "-2" "3 / 10"] by (simp add: round_even_def)
  define s :: real where "s = 1080863910568919 / 2 ^ 55"
  define e :: real where "e = 5404319552844595 / 2 ^ 54"
  define d :: real where "d = 607985949695017 / 2 ^ 51"
  define v :: real where "v = 1351079888211149 / 2 ^ 52"
  have 1: "to_double (e - s) = d"
    using to_double_eval[of "-2" "e - s"] by (simp add: round_even_def s_def e_def d_def)
  have 2: "to_double d = d"
    using to_double_eval[of "-2" d] by (simp add: round_even_def d_def)
  have 3: "to_double (s + d) = v"
    using to_double_eval[of "-2" "s + d"] by (simp add: round_even_def s_def d_def v_def)
  have "get_value (double_arith exp) fresh_ramp_node s e 1 ''linear''
      = (Inr (to_double (s + to_double (to_double (e - s)))), fresh_ramp_node)"
    by (simp add: get_value_def fresh_ramp_node_def modified_progress_def double_arith_def
        to_double_1)
  then have "get_value (double_arith exp) fresh_ramp_node s e 1 ''linear'' = (Inr v, fresh_ramp_node)"
    by (simp only: 1 2 3)
  moreover have "v \<noteq> e" by (simp add: v_def e_def)
  ultimately show ?thesis using a b unfolding s_def e_def v_def by blast
qed

section \<open>Film grain without grain\<close>

lemma rmod_in:
  assumes "0 < y" "of_int k * y \<le> x" "x < (of_int k + 1) * y"
  shows "rmod x y = x - of_int k * y"
proof -
  have "of_int k \<le> x / y" using assms(1,2) by (simp add: pos_le_divide_eq)
  moreover have "x / y < of_int k + 1" using assms(1,3) by (simp add: pos_divide_less_eq)
  ultimately have "\<lfloor>x / y\<rfloor> = k" by (simp add: floor_unique)
  then show ?thesis by (simp add: rmod_def mult.commute)
qed

lemma sector_even:
  assumes h: "h * 6 = 2 * of_int j + u" and u: "0 \<le> u" "u < 1"
  shows "c * (1 - \<bar>rmod (h * 6) 2 - 1\<bar>) = c * u"
proof -
  have "rmod (h * 6) 2 = h * 6 - of_int j * 2"
    by (rule rmod_in) (use h u in simp_all)
  then have "rmod (h * 6) 2 = u" using h by simp
  then show ?thesis using u by simp
qed

lemma sector_odd:
  assumes h: "h * 6 = 2 * of_int j + 1 + u" and u: "0 \<le> u" "u < 1"
  shows "c * (1 - \<bar>rmod (h * 6) 2 - 1\<bar>) = c * (1 - u)"
proof -
  have "rmod (h * 6) 2 = h * 6 - of_int j * 2"
    by (rule rmod_in) (use h u in simp_all)
  then have "rmod (h * 6) 2 = 1 + u" using h by simp
  then show ?thesis using u by simp
qed

lemma sector_0: "h * 6 = u \<Longrightarrow> 0 \<le> u \<Longrightarrow> u < 1 \<Longrightarrow> sector_rgb c (Some h) = (c, c * u, 0)"
  using sector_even[of h 0 u c] by (simp add: sector_rgb_def Let_def)

lemma sector_1: "h * 6 = 1 + u \<Longrightarrow> 0 \<le> u \<Longrightarrow> u < 1 \<Longrightarrow> sector_rgb c (Some h) = (c * (1 - u), c, 0)"
  using sector_odd[of h 0 u c] by (simp add: sector_rgb_def Let_def)

lemma sector_2: "h * 6 = 2 + u \<Longrightarrow> 0 \<le> u \<Longrightarrow> u < 1 \<Longrightarrow> sector_rgb c (Some h) = (0, c, c * u)"
  using sector_even[of h 1 u c] by (simp add: sector_rgb_def Let_def)

lemma sector_3: "h * 6 = 3 + u \<Longrightarrow> 0 \<le> u \<Longrightarrow> u < 1 \<Longrightarrow> sector_rgb c (Some h) = (0, c * (1 - u), c)"
  using sector_odd[of h 1 u c] by (simp add: sector_rgb_def Let_def)

lemma sector_4: "h * 6 = 4 + u \<Longrightarrow> 0 \<le> u \<Longrightarrow> u < 1 \<Longrightarrow> sector_rgb c (Some h) = (c * u, 0, c)"
  using sector_even[of h 2 u c] by (simp add: sector_rgb_def Let_def)

lemma sector_5: "h * 6 = 5 + u \<Longrightarrow> 0 \<le> u \<Longrightarrow> u < 1 \<Longrightarrow> sector_rgb c (Some h) = (c, 0, c * (1 - u))"
  using sector_odd[of h 2 u c] by (simp add: sector_rgb_def Let_def)

lemma hue_cases:
  assumes v: "v = max r (max g b)" and d: "d = v - min r (min g b)" and nz: "d \<noteq> 0"
  shows "hue (r, g, b) =
      (if b = v then Some ((240 + 60 * (r - g) / d) / 360)
       else if g = v then Some ((120 + 60 * (b - r) / d) / 360)
       else if r = v then Some (rmod (60 * (g - b) / d) 360 / 360) else Some 0)"
  unfolding hue_def Let_def prod.case v[symmetric] d[symmetric]
  by (simp only: nz if_False)

lemma hue_sector:
  fixes r g b :: real
  defines "v \<equiv> max r (max g b)" and "mn \<equiv> min r (min g b)"
  assumes d: "v - mn \<noteq> 0"
  shows "sector_rgb (v - mn) (hue (r, g, b)) = (r - mn, g - mn, b - mn)"
proof -
  define d where "d = v - mn"
  have vb: "r \<le> v" "g \<le> v" "b \<le> v" and vin: "v = r \<or> v = g \<or> v = b"
    by (simp_all add: v_def max_def)
  have mb: "mn \<le> r" "mn \<le> g" "mn \<le> b" and min: "mn = r \<or> mn = g \<or> mn = b"
    by (simp_all add: mn_def min_def)
  have dpos: "0 < d" using d vb mb vin min unfolding d_def by argo
  have hue_eq: "hue (r, g, b) =
      (if b = v then Some ((240 + 60 * (r - g) / d) / 360)
       else if g = v then Some ((120 + 60 * (b - r) / d) / 360)
       else if r = v then Some (rmod (60 * (g - b) / d) 360 / 360) else Some 0)"
    by (rule hue_cases) (use dpos in \<open>simp_all add: v_def d_def mn_def\<close>)
  consider (A1) "b = v" "r < g" | (A2) "b = v" "g \<le> r" "r < v" | (A3) "b = v" "r = v"
    | (B1) "b < v" "g = v" "b < r" | (B2) "b < v" "g = v" "r \<le> b"
    | (C1) "b < v" "g < v" "b \<le> g" | (C2) "b < v" "g < v" "g < b"
    using vb vin by argo
  then show ?thesis
  proof cases
    case A1
    then have mn: "mn = r" and dd: "d = b - r" using vb mb vin min unfolding d_def by argo+
    define t where "t = (r - g) / d"
    have td: "d * t = r - g" using dpos by (simp add: t_def)
    have tb: "- 1 \<le> t" "t < 0"
      using A1 dpos dd vb by (simp_all add: t_def field_simps)
    have h: "hue (r, g, b) = Some ((240 + 60 * t) / 360)"
      using A1 unfolding hue_eq t_def by simp
    have "sector_rgb d (Some ((240 + 60 * t) / 360)) = (0, d * (1 - (1 + t)), d)"
      by (rule sector_3) (use tb in simp_all)
    also have "\<dots> = (r - mn, g - mn, b - mn)"
      using td by (simp add: mn dd algebra_simps)
    finally show ?thesis by (simp add: h d_def)
  next
    case A2
    then have mn: "mn = g" and dd: "d = b - g" using vb mb vin min unfolding d_def by argo+
    define t where "t = (r - g) / d"
    have td: "d * t = r - g" using dpos by (simp add: t_def)
    have tb: "0 \<le> t" "t < 1"
      using A2 dpos dd by (simp_all add: t_def field_simps)
    have h: "hue (r, g, b) = Some ((240 + 60 * t) / 360)"
      using A2 unfolding hue_eq t_def by simp
    have "sector_rgb d (Some ((240 + 60 * t) / 360)) = (d * t, 0, d)"
      by (rule sector_4) (use tb in simp_all)
    also have "\<dots> = (r - mn, g - mn, b - mn)"
      using td by (simp add: mn dd algebra_simps)
    finally show ?thesis by (simp add: h d_def)
  next
    case A3
    then have mn: "mn = g" and dd: "d = b - g" and rb: "r = b"
      using vb mb vin min unfolding d_def by argo+
    have "r - g = d" using dd rb by simp
    then have "60 * (r - g) / d = 60 * (d / d)" by simp
    then have t1: "60 * (r - g) / d = 60 * 1" using dpos by simp
    have h: "hue (r, g, b) = Some ((240 + 60 * 1) / 360)"
      unfolding hue_eq t1 using A3(1) by (simp only: simp_thms if_True)
    have "sector_rgb d (Some ((240 + 60 * 1) / 360)) = (d, 0, d * (1 - 0))"
      by (rule sector_5) simp_all
    also have "\<dots> = (r - mn, g - mn, b - mn)"
      by (simp add: mn dd rb)
    finally show ?thesis by (simp add: h d_def)
  next
    case B1
    then have mn: "mn = b" and dd: "d = g - b" using vb mb vin min unfolding d_def by argo+
    define t where "t = (b - r) / d"
    have td: "d * t = b - r" using dpos by (simp add: t_def)
    have rv: "r \<le> g" using B1 vb by simp
    have tb: "- 1 \<le> t" "t < 0"
      using B1 dpos dd rv by (simp_all add: t_def field_simps)
    have h: "hue (r, g, b) = Some ((120 + 60 * t) / 360)"
      using B1 unfolding hue_eq t_def by simp
    have "sector_rgb d (Some ((120 + 60 * t) / 360)) = (d * (1 - (1 + t)), d, 0)"
      by (rule sector_1) (use tb in simp_all)
    also have "\<dots> = (r - mn, g - mn, b - mn)"
      using td by (simp add: mn dd algebra_simps)
    finally show ?thesis by (simp add: h d_def)
  next
    case B2
    then have mn: "mn = r" and dd: "d = g - r" using vb mb vin min unfolding d_def by argo+
    define t where "t = (b - r) / d"
    have td: "d * t = b - r" using dpos by (simp add: t_def)
    have tb: "0 \<le> t" "t < 1"
      using B2 dpos dd by (simp_all add: t_def field_simps)
    have h: "hue (r, g, b) = Some ((120 + 60 * t) / 360)"
      using B2 unfolding hue_eq t_def by simp
    have "sector_rgb d (Some ((120 + 60 * t) / 360)) = (0, d, d * t)"
      by (rule sector_2) (use tb in simp_all)
    also have "\<dots> = (r - mn, g - mn, b - mn)"
      using td by (simp add: mn dd algebra_simps)
    finally show ?thesis by (simp add: h d_def)
  next
    case C1
    then have rv: "r = v" using vin by argo
    with C1 have mn: "mn = b" and dd: "d = r - b" using vb mb vin min unfolding d_def by argo+
    define t where "t = (g - b) / d"
    have td: "d * t = g - b" using dpos by (simp add: t_def)
    have tb: "0 \<le> t" "t < 1"
      using C1 rv dpos dd by (simp_all add: t_def field_simps)
    have "rmod (60 * t) 360 = 60 * t - of_int 0 * 360"
      by (rule rmod_in) (use tb in simp_all)
    then have rm: "rmod (60 * (g - b) / d) 360 = 60 * t" by (simp add: t_def)
    have h: "hue (r, g, b) = Some (60 * t / 360)"
      using C1 rv rm unfolding hue_eq by simp
    have "sector_rgb d (Some (60 * t / 360)) = (d, d * t, 0)"
      by (rule sector_0) (use tb in simp_all)
    also have "\<dots> = (r - mn, g - mn, b - mn)"
      using td by (simp add: mn dd algebra_simps)
    finally show ?thesis by (simp add: h d_def)
  next
    case C2
    then have rv: "r = v" using vin by argo
    with C2 have mn: "mn = g" and dd: "d = r - g" using vb mb vin min unfolding d_def by argo+
    define t where "t = (g - b) / d"
    have td: "d * t = g - b" using dpos by (simp add: t_def)
    have tb: "- 1 < t" "t < 0"
      using C2 rv dpos dd by (simp_all add: t_def field_simps)
    have "rmod (60 * t) 360 = 60 * t - of_int (- 1) * 360"
      by (rule rmod_in) (use tb in simp_all)
    then have rm: "rmod (60 * (g - b) / d) 360 = 60 * t + 360" by (simp add: t_def)
    have h: "hue (r, g, b) = Some ((60 * t + 360) / 360)"
      using C2 rv rm unfolding hue_eq by simp
    have "sector_rgb d (Some ((60 * t + 360) / 360)) = (d, 0, d * (1 - (1 + t)))"
      by (rule sector_5) (use tb in simp_all)
    also have "\<dots> = (r - mn, g - mn, b - mn)"
      using td by (simp add: mn dd algebra_simps)
    finally show ?thesis by (simp add: h d_def)
  qed
qed

lemma adjust_saturation_one:
  assumes "0 \<le> r" "0 \<le> g" "0 \<le> b"
  shows "adjust_saturation 1 (r, g, b) = (r, g, b)"
proof -
  define v where "v = max r (max g b)"
  define mn where "mn = min r (min g b)"
  have vb: "r \<le> v" "g \<le> v" "b \<le> v" by (simp_all add: v_def max_def)
  have mb: "mn \<le> r" "mn \<le> g" "mn \<le> b" and min: "mn = r \<or> mn = g \<or> mn = b"
    by (simp_all add: mn_def min_def)
  have m0: "0 \<le> mn" using assms min by argo
  have unf: "adjust_saturation 1 (r, g, b) =
      (case sector_rgb (v * clamp (if v \<noteq> 0 then (v - mn) / v else 0) 0 1) (hue (r, g, b)) of
         (r1, g1, b1) \<Rightarrow>
           (r1 + (v - v * clamp (if v \<noteq> 0 then (v - mn) / v else 0) 0 1),
            g1 + (v - v * clamp (if v \<noteq> 0 then (v - mn) / v else 0) 0 1),
            b1 + (v - v * clamp (if v \<noteq> 0 then (v - mn) / v else 0) 0 1)))"
    by (simp add: adjust_saturation_def Let_def v_def mn_def)
  show ?thesis
  proof (cases "v - mn = 0")
    case True
    then have eq: "r = v" "g = v" "b = v" using vb mb by argo+
    have hn: "hue (r, g, b) = None"
      using True unfolding hue_def Let_def prod.case v_def[symmetric] mn_def[symmetric]
      by (simp add: eq)
    have "v * clamp (if v \<noteq> 0 then (v - mn) / v else 0) 0 1 = 0"
      using True by (simp add: clamp_def)
    then show ?thesis unfolding unf hn by (simp add: sector_rgb_def eq)
  next
    case False
    then have dpos: "0 < v - mn" using vb mb min by argo
    then have vpos: "0 < v" using m0 by simp
    have "0 \<le> (v - mn) / v" "(v - mn) / v \<le> 1" using vpos dpos m0 by simp_all
    then have "clamp ((v - mn) / v) 0 1 = (v - mn) / v" by (simp add: clamp_def)
    then have c: "v * clamp (if v \<noteq> 0 then (v - mn) / v else 0) 0 1 = v - mn"
      using vpos by simp
    have "sector_rgb (v - mn) (hue (r, g, b)) = (r - mn, g - mn, b - mn)"
      using hue_sector[of r g b] False by (simp add: v_def mn_def)
    then show ?thesis unfolding unf c by simp
  qed
qed

lemma grainy_img_zero: "grainy_img img noise 0 brightness_impact = px img"
  by (simp add: grainy_img_def Let_def)

lemma channel_rgb_of: "c < 3 \<Longrightarrow> channel (rgb_of p) c = p c"
proof -
  assume "c < 3"
  then consider "c = 0" | "c = 1" | "c = 2" by linarith
  then show ?thesis by cases (simp_all add: channel_def rgb_of_def)
qed

lemma color_pixel_unchanged:
  assumes "unit_rgb (rgb_of p)" "c < 3"
  shows "clamp (channel (adjust_saturation 1 (rgb_of p)) c) 0 1 = p c"
proof -
  from assms(1) have u: "0 \<le> p 0" "p 0 \<le> 1" "0 \<le> p 1" "p 1 \<le> 1" "0 \<le> p 2" "p 2 \<le> 1"
    by (simp_all add: unit_rgb_def rgb_of_def)
  have "adjust_saturation 1 (p 0, p 1, p 2) = (p 0, p 1, p 2)"
    using u by (intro adjust_saturation_one)
  then have a: "adjust_saturation 1 (rgb_of p) = rgb_of p" by (simp add: rgb_of_def)
  from assms(2) consider "c = 0" | "c = 1" | "c = 2" by linarith
  then have "0 \<le> p c \<and> p c \<le> 1" using u by cases simp_all
  then show ?thesis by (simp add: a channel_rgb_of[OF assms(2)] clamp_def)
qed

text \<open>The noise sizes of line 502 exist for every grain size of the declared range,
  from 0.5 to 5.0, and every size a tensor can have.\<close>

lemma noise_size_declared_range:
  assumes "1 / 2 \<le> grain_size" "n < 2 ^ 63"
  shows "\<exists>k. noise_size n grain_size = Inr k \<and> 1 \<le> k"
proof -
  have g: "0 < grain_size" using assms(1) by simp
  have "real n / grain_size \<le> real n / (1 / 2)"
    using assms(1) by (intro divide_left_mono) simp_all
  also have "\<dots> = 2 * real n" by simp
  also have "\<dots> < 2 * 2 ^ 63" using assms(2)
    by (metis of_nat_less_iff of_nat_numeral of_nat_power mult_strict_left_mono zero_less_numeral)
  also have "\<dots> \<le> overflow_bound"
    by (simp add: overflow_bound_def)
  finally have "\<bar>real n / grain_size\<bar> < overflow_bound" using g by simp
  then show ?thesis using g by (simp add: noise_size_def)
qed

lemma to_double_2: "to_double 2 = 2"
  using to_double_eval[of 1 2] by (simp add: round_even_def)

lemma to_double_4: "to_double 4 = 4"
  using to_double_eval[of 2 4] by (simp add: round_even_def)

lemma noise_size_samples:
  "noise_size (Suc 0) 1 = Inr (Suc 0)" "noise_size 2 1 = Inr 2"
  "noise_size (Suc 0) (1 / 2) = Inr 2" "noise_size 2 (1 / 2) = Inr 4"
  by (simp_all add: noise_size_def overflow_bound_def py_int_def to_double_1 to_double_2
      to_double_4)

text \<open>
  Claim C7, amended. On an image of three channels, whenever the noise of lines 502-518
  is produced (it is not for a grain size of zero, for one so small that the noise size
  overflows, or when the runtime cannot allocate or resize the noise), intensity 0 makes
  the grain added zero whatever the noise, the grain saturation and the brightness
  impact. In the colour mode with an image saturation of 1 the result has the shape of
  the image, and every pixel whose channels lie in the range from 0 to 1 comes back
  unchanged, the arithmetic taken as exact: there the conversion to hue, saturation and
  value and back is the identity.
\<close>

theorem film_grain_zero_intensity:
  assumes "channels img = 3"
    and "film_noise rt img grain_size grain_saturation = Inr noise"
  shows "\<exists>out. apply_film_grain rt img 0 grain_size grain_saturation brightness_impact 1
                  ''Color'' = Inr out \<and>
               batch out = batch img \<and> height out = height img \<and> width out = width img \<and>
               channels out = channels img \<and>
               (\<forall>b y x. unit_rgb (rgb_of (px img b y x)) \<longrightarrow>
                  (\<forall>c<3. px out b y x c = px img b y x c))"
  using assms
  by (simp add: apply_film_grain_def Let_def grainy_img_zero color_pixel_unchanged)

theorem film_grain_zero_intensity_witness:
  "channels sample_rgb_image = 3 \<and>
   (\<exists>noise. film_noise sample_sampler sample_rgb_image (1 / 2) (1 / 2) = Inr noise) \<and>
   unit_rgb (rgb_of (px sample_rgb_image 0 0 1)) \<and>
   rgb_of (px sample_rgb_image 0 0 1) = (1 / 5, 1 / 2, 4 / 5) \<and>
   map_sum id (\<lambda>out. rgb_of (px out 0 0 1))
     (apply_film_grain sample_sampler sample_rgb_image 0 (1 / 2) (1 / 2) (1 / 2) 1 ''Color'')
     = Inr (1 / 5, 1 / 2, 4 / 5)"
proof -
  have d: "channels sample_rgb_image = 3" "height sample_rgb_image = 1"
    "width sample_rgb_image = 2" "batch sample_rgb_image = 1"
    by (simp_all add: sample_rgb_image_def)
  obtain noise where n: "film_noise sample_sampler sample_rgb_image (1 / 2) (1 / 2) = Inr noise"
    by (simp add: film_noise_def d noise_size_samples sample_sampler_def)
  have p: "rgb_of (px sample_rgb_image 0 0 1) = (1 / 5, 1 / 2, 4 / 5)"
    by (simp add: sample_rgb_image_def rgb_of_def)
  have u: "unit_rgb (rgb_of (px sample_rgb_image 0 0 1))"
    unfolding p by (simp add: unit_rgb_def)
  from film_grain_zero_intensity[OF d(1) n, of "1 / 2"]
  obtain out where o: "apply_film_grain sample_sampler sample_rgb_image 0 (1 / 2) (1 / 2) (1 / 2) 1
                  ''Color'' = Inr out"
    and "\<forall>b y x. unit_rgb (rgb_of (px sample_rgb_image b y x)) \<longrightarrow>
           (\<forall>c<3. px out b y x c = px sample_rgb_image b y x c)"
    by auto
  with u have "\<forall>c<3. px out 0 0 1 c = px sample_rgb_image 0 0 1 c" by blast
  then have "rgb_of (px out 0 0 1) = rgb_of (px sample_rgb_image 0 0 1)"
    by (simp add: rgb_of_def)
  with d(1) n u p o show ?thesis by auto
qed

text \<open>
  The claim as stated fails in the black and white mode: with intensity 0 a pure red
  pixel comes back as the grey of its luminance.
\<close>

theorem film_grain_black_and_white_counterexample:
  "rgb_of (px sample_rgb_image 0 0 0) = (1, 0, 0) \<and>
   map_sum id (\<lambda>out. rgb_of (px out 0 0 0))
     (apply_film_grain sample_sampler sample_rgb_image 0 1 0 (1 / 2) 1 ''Black and White'')
     = Inr (299 / 1000, 299 / 1000, 299 / 1000)"
  by (simp add: apply_film_grain_def film_noise_def noise_size_samples Let_def grainy_img_zero
      luminance_def clamp_def sample_rgb_image_def sample_sampler_def rgb_of_def)

end
